theory Spec2Isabelle
  imports Main "HOL-Library.Sublist"
begin

section \<open>Strings\<close>

text \<open>
  The member functions of \<^verbatim>\<open>wxString\<close> and \<^verbatim>\<open>std::basic_string\<close> that the code calls, each
  modelled by its documented behaviour.  A position is a \<^typ>\<open>nat\<close>; the value \<^verbatim>\<open>npos\<close>
  (``not found'') is \<^const>\<open>None\<close>.
\<close>

definition wxIsspace :: "char \<Rightarrow> bool" where
  "wxIsspace c = (c \<in> set [CHR '' '', CHR 0x09, CHR 0x0A, CHR 0x0B, CHR 0x0C, CHR 0x0D])"

text \<open>\<^verbatim>\<open>find(str)\<close>: the position of the first occurrence of a substring.\<close>

fun find_str :: "string \<Rightarrow> string \<Rightarrow> nat option" where
  "find_str sub [] = (if sub = [] then Some 0 else None)"
| "find_str sub (x # xs) =
     (if prefix sub (x # xs) then Some 0 else map_option Suc (find_str sub xs))"

text \<open>
  \<^verbatim>\<open>find_last_of(chars, pos)\<close>: the last position at or before \<open>pos\<close> that holds one of the
  characters.
\<close>

definition find_last_of :: "string \<Rightarrow> string \<Rightarrow> nat \<Rightarrow> nat option" where
  "find_last_of chars s pos =
     (let t = take (Suc pos) s;
          n = length (takeWhile (\<lambda>c. c \<notin> set chars) (rev t))
      in if n = length t then None else Some (length t - Suc n))"

text \<open>
  \<^verbatim>\<open>substr(pos, n)\<close>, called here only with \<open>pos\<close> within the string (beyond it the C++
  throws).
\<close>

definition substr :: "string \<Rightarrow> nat \<Rightarrow> nat \<Rightarrow> string" where
  "substr s pos n = take n (drop pos s)"

definition starts_with :: "string \<Rightarrow> string \<Rightarrow> bool" where
  "starts_with s p = prefix p s"

text \<open>
  \<^verbatim>\<open>wxString::Strip\<close> trims white space on the chosen sides (\<^verbatim>\<open>Trim(false)\<close> on the left,
  \<^verbatim>\<open>Trim(true)\<close> on the right).
\<close>

definition Trim :: "bool \<Rightarrow> string \<Rightarrow> string" where
  "Trim fromRight s =
     (if fromRight then rev (dropWhile wxIsspace (rev s)) else dropWhile wxIsspace s)"

datatype stripType = leading | trailing | both

fun Strip :: "stripType \<Rightarrow> string \<Rightarrow> string" where
  "Strip leading s = Trim False s"
| "Strip trailing s = Trim True s"
| "Strip both s = Trim True (Trim False s)"

text \<open>\<^verbatim>\<open>find(ch)\<close>: the position of the first occurrence of a character.\<close>

fun find_char :: "char \<Rightarrow> string \<Rightarrow> nat option" where
  "find_char c [] = None"
| "find_char c (x # xs) = (if x = c then Some 0 else map_option Suc (find_char c xs))"

text \<open>\<^verbatim>\<open>substr(pos)\<close> and \<^verbatim>\<open>Mid(first)\<close>: the rest of the string from a position on.\<close>

definition substr_from :: "string \<Rightarrow> nat \<Rightarrow> string" where
  "substr_from s pos = drop pos s"

definition Mid :: "string \<Rightarrow> nat \<Rightarrow> string" where
  "Mid s first = drop first s"

text \<open>
  \<^verbatim>\<open>Printf\<close> with a format that ends in \<^verbatim>\<open>%i\<close>: the text before the conversion, then the
  number in decimal.  The counters printed this way count header entries or list
  elements, so they are natural numbers far below the range of the C++ counter.
\<close>

definition digit_char :: "nat \<Rightarrow> char" where
  "digit_char d = ''0123456789'' ! (d mod 10)"

function decimal :: "nat \<Rightarrow> string" where
  "decimal n = (if n < 10 then [digit_char n] else decimal (n div 10) @ [digit_char n])"
  by pat_completeness auto
termination
  by (relation "measure id") auto

declare decimal.simps [simp del]

definition Printf_index :: "string \<Rightarrow> nat \<Rightarrow> string" where
  "Printf_index fmt i = fmt @ decimal i"

subsection \<open>The string tokenizer\<close>

text \<open>
  \<^verbatim>\<open>wxStringTokenizer\<close> in its default mode: with delimiters that are all white space it
  behaves like \<^verbatim>\<open>strtok\<close> and never returns an empty token; with any other delimiter it
  returns empty tokens, except a trailing one.  \<open>wx_tokens\<close> is the sequence of tokens that
  \<^verbatim>\<open>GetNextToken\<close> returns while \<^verbatim>\<open>HasMoreTokens\<close> holds; \<open>rest\<close> is the text from the
  current position on and \<open>at_start\<close> tells whether that position is the start of the
  string.  \<^verbatim>\<open>CountTokens\<close> is the length of that sequence.
\<close>

datatype wxStringTokenizerMode = wxTOKEN_RET_EMPTY | wxTOKEN_STRTOK

definition default_mode :: "string \<Rightarrow> wxStringTokenizerMode" where
  "default_mode delims = (if list_all wxIsspace delims then wxTOKEN_STRTOK else wxTOKEN_RET_EMPTY)"

definition HasMoreTokens :: "wxStringTokenizerMode \<Rightarrow> string \<Rightarrow> bool \<Rightarrow> string \<Rightarrow> bool" where
  "HasMoreTokens mode delims at_start rest =
     (if list_ex (\<lambda>c. c \<notin> set delims) rest then True
      else (case mode of wxTOKEN_RET_EMPTY \<Rightarrow> rest \<noteq> [] \<and> at_start
            | wxTOKEN_STRTOK \<Rightarrow> False))"

function wx_tokens :: "wxStringTokenizerMode \<Rightarrow> string \<Rightarrow> bool \<Rightarrow> string \<Rightarrow> string list" where
  "wx_tokens mode delims at_start rest =
     (if \<not> HasMoreTokens mode delims at_start rest then []
      else let token = takeWhile (\<lambda>c. c \<notin> set delims) rest
           in case dropWhile (\<lambda>c. c \<notin> set delims) rest of
                [] \<Rightarrow> [token]
              | d # rest' \<Rightarrow>
                  if mode = wxTOKEN_STRTOK \<and> token = []
                  then wx_tokens mode delims False rest'
                  else token # wx_tokens mode delims False rest')"
  by pat_completeness auto
termination
proof (relation "measure (\<lambda>(mode, delims, at_start, rest). length rest)")
  show "wf (measure (\<lambda>(mode, delims, at_start, rest). length rest))" by simp
next
  fix mode :: wxStringTokenizerMode and delims :: string and at_start :: bool
    and rest token :: string and d :: char and rest' :: string
  assume "dropWhile (\<lambda>c. c \<notin> set delims) rest = d # rest'"
  then have "length (d # rest') \<le> length rest"
    by (metis length_dropWhile_le)
  then show "((mode, delims, False, rest'), (mode, delims, at_start, rest))
               \<in> measure (\<lambda>(mode, delims, at_start, rest). length rest)"
    by simp
next
  fix mode :: wxStringTokenizerMode and delims :: string and at_start :: bool
    and rest token :: string and d :: char and rest' :: string
  assume "dropWhile (\<lambda>c. c \<notin> set delims) rest = d # rest'"
  then have "length (d # rest') \<le> length rest"
    by (metis length_dropWhile_le)
  then show "((mode, delims, False, rest'), (mode, delims, at_start, rest))
               \<in> measure (\<lambda>(mode, delims, at_start, rest). length rest)"
    by simp
qed

declare wx_tokens.simps [simp del]

definition tokenize :: "string \<Rightarrow> string \<Rightarrow> string list" where
  "tokenize str delims = wx_tokens (default_mode delims) delims True str"

subsection \<open>C string escaping\<close>

text \<open>
  Modelled from the spec: \<^verbatim>\<open>EscapeCString\<close> (\<^verbatim>\<open>str_helpers.h\<close>) is not among the sources.  It
  escapes a value ``using the format's C-string escaping convention'': the double quote,
  the backslash and the control characters that C names become a backslash and a letter.
\<close>

fun escape_char :: "char \<Rightarrow> string" where
  "escape_char c =
     (if c = CHR 0x22 then [CHR 0x5C, CHR 0x22]
      else if c = CHR 0x07 then [CHR 0x5C, CHR ''a'']
      else if c = CHR 0x08 then [CHR 0x5C, CHR ''b'']
      else if c = CHR 0x0C then [CHR 0x5C, CHR ''f'']
      else if c = CHR 0x0A then [CHR 0x5C, CHR ''n'']
      else if c = CHR 0x0D then [CHR 0x5C, CHR ''r'']
      else if c = CHR 0x09 then [CHR 0x5C, CHR ''t'']
      else if c = CHR 0x0B then [CHR 0x5C, CHR ''v'']
      else if c = CHR 0x5C then [CHR 0x5C, CHR 0x5C]
      else [c])"

definition EscapeCString :: "string \<Rightarrow> string" where
  "EscapeCString str = concat (map escape_char str)"

section \<open>Data model\<close>

text \<open>
  Modelled from the spec: \<^verbatim>\<open>language.h\<close> is not among the sources.  A language value is
  its code; the default-constructed value has the empty code and is the only invalid one
  (``invalid language codes simply yield an unset language value'').
\<close>

datatype Language = Language (Code: string)

definition IsValid :: "Language \<Rightarrow> bool" where
  "IsValid l = (Code l \<noteq> [])"

text \<open>
  Modelled from the spec: the declaration of \<^verbatim>\<open>Catalog::HeaderData\<close> (\<^verbatim>\<open>catalog.h\<close>) is not
  among the sources.  The record holds the ordered key/value entries and the derived
  first-class fields that section 3 of the specification lists, under the member names
  \<^verbatim>\<open>catalog.cpp\<close> uses.
\<close>

record Entry =
  Key :: string
  Value :: string

record HeaderData =
  m_entries :: "Entry list"
  Project :: string
  CreationDate :: string
  RevisionDate :: string
  Translator :: string
  TranslatorEmail :: string
  LanguageTeam :: string
  Charset :: string
  Lang :: Language
  SourceCodeCharset :: string
  BasePath :: string
  Keywords :: "string list"
  SearchPaths :: "string list"
  SearchPathsExcluded :: "string list"

section \<open>Header metadata\<close>

subsection \<open>Raw entries\<close>

text \<open>
  \<^verbatim>\<open>HeaderData::Find\<close> returns a pointer to the first entry with the key, or null; the
  model returns that entry's index.
\<close>

fun find_entry :: "string \<Rightarrow> Entry list \<Rightarrow> nat \<Rightarrow> nat option" where
  "find_entry key [] i = None"
| "find_entry key (e # es) i = (if Key e = key then Some i else find_entry key es (Suc i))"

definition Find :: "string \<Rightarrow> HeaderData \<Rightarrow> nat option" where
  "Find key h = find_entry key (m_entries h) 0"

definition GetHeader :: "string \<Rightarrow> HeaderData \<Rightarrow> string" where
  "GetHeader key h =
     (case Find key h of Some i \<Rightarrow> Value (m_entries h ! i) | None \<Rightarrow> [])"

definition HasHeader :: "string \<Rightarrow> HeaderData \<Rightarrow> bool" where
  "HasHeader key h = (Find key h \<noteq> None)"

definition SetHeader :: "string \<Rightarrow> string \<Rightarrow> HeaderData \<Rightarrow> HeaderData" where
  "SetHeader key value h =
     (case Find key h of
        Some i \<Rightarrow> h\<lparr>m_entries := (m_entries h)[i := (m_entries h ! i)\<lparr>Value := value\<rparr>]\<rparr>
      | None \<Rightarrow> h\<lparr>m_entries := m_entries h @ [\<lparr>Key = key, Value = value\<rparr>]\<rparr>)"

text \<open>The loop of \<^verbatim>\<open>DeleteHeader\<close>, which copies the entries with another key.\<close>

fun entries_without :: "string \<Rightarrow> Entry list \<Rightarrow> Entry list \<Rightarrow> Entry list" where
  "entries_without key [] enew = enew"
| "entries_without key (i # rest) enew =
     entries_without key rest (if Key i \<noteq> key then enew @ [i] else enew)"

definition DeleteHeader :: "string \<Rightarrow> HeaderData \<Rightarrow> HeaderData" where
  "DeleteHeader key h =
     (if HasHeader key h then h\<lparr>m_entries := entries_without key (m_entries h) []\<rparr> else h)"

definition SetHeaderNotEmpty :: "string \<Rightarrow> string \<Rightarrow> HeaderData \<Rightarrow> HeaderData" where
  "SetHeaderNotEmpty key value h =
     (if value = [] then DeleteHeader key h else SetHeader key value h)"

subsection \<open>Canonical order\<close>

text \<open>
  \<^verbatim>\<open>NormalizeHeaderOrder\<close> sorts with \<^verbatim>\<open>std::stable_sort\<close>, comparing the ranks of the keys:
  the index in the canonical array, or one more than its size for a key that is not in
  it.  \<^const>\<open>sort_key\<close> is a stable sort by that rank.
\<close>

definition canonicalOrder :: "string list" where
  "canonicalOrder =
     [''Project-Id-Version'', ''Report-Msgid-Bugs-To'', ''POT-Creation-Date'',
      ''PO-Revision-Date'', ''Last-Translator'', ''Language-Team'', ''Language'',
      ''MIME-Version'', ''Content-Type'', ''Content-Transfer-Encoding'', ''Plural-Forms'']"

definition wxNOT_FOUND :: int where
  "wxNOT_FOUND = - 1"

fun Index_from :: "string list \<Rightarrow> string \<Rightarrow> int \<Rightarrow> int" where
  "Index_from [] s i = wxNOT_FOUND"
| "Index_from (x # xs) s i = (if x = s then i else Index_from xs s (i + 1))"

definition Index :: "string list \<Rightarrow> string \<Rightarrow> int" where
  "Index arr s = Index_from arr s 0"

definition coalesce :: "int \<Rightarrow> int" where
  "coalesce x = (if x = wxNOT_FOUND then 1 + int (length canonicalOrder) else x)"

definition header_rank :: "string \<Rightarrow> int" where
  "header_rank key = coalesce (Index canonicalOrder key)"

definition NormalizeHeaderOrder :: "HeaderData \<Rightarrow> HeaderData" where
  "NormalizeHeaderOrder h =
     h\<lparr>m_entries := sort_key (\<lambda>e. header_rank (Key e)) (m_entries h)\<rparr>"

subsection \<open>From fields to entries\<close>

text \<open>The loop that joins the keywords, each followed by a semicolon.\<close>

fun keywords_loop :: "string list \<Rightarrow> string \<Rightarrow> string" where
  "keywords_loop [] kw = kw"
| "keywords_loop (k # ks) kw = keywords_loop ks (kw @ k @ [CHR '';''])"

text \<open>
  The loops that regenerate an indexed series.  The first deletes the entry at each
  index until an index is missing; it ends because every round removes an entry.
\<close>

lemma entries_without_filter:
  "entries_without key es enew = enew @ filter (\<lambda>e. Key e \<noteq> key) es"
  by (induction es arbitrary: enew) auto

lemma find_entry_None: "(find_entry key es i = None) = (key \<notin> Key ` set es)"
  by (induction es arbitrary: i) auto

lemma DeleteHeader_shrinks:
  "HasHeader key h \<Longrightarrow> length (m_entries (DeleteHeader key h)) < length (m_entries h)"
proof -
  assume "HasHeader key h"
  then have "key \<in> Key ` set (m_entries h)"
    by (simp add: HasHeader_def Find_def find_entry_None)
  then have "length (filter (\<lambda>e. Key e \<noteq> key) (m_entries h)) < length (m_entries h)"
    by (auto intro!: length_filter_less)
  moreover assume "HasHeader key h"
  ultimately show ?thesis by (simp add: DeleteHeader_def entries_without_filter)
qed

function delete_indexed :: "string \<Rightarrow> nat \<Rightarrow> HeaderData \<Rightarrow> HeaderData" where
  "delete_indexed fmt i h =
     (let path = Printf_index fmt i
      in if \<not> HasHeader path h then h
         else delete_indexed fmt (Suc i) (DeleteHeader path h))"
  by pat_completeness auto
termination
  by (relation "measure (\<lambda>(fmt, i, h). length (m_entries h))")
    (auto simp: DeleteHeader_shrinks)

declare delete_indexed.simps [simp del]

fun write_indexed :: "string \<Rightarrow> nat \<Rightarrow> string list \<Rightarrow> HeaderData \<Rightarrow> HeaderData" where
  "write_indexed fmt i [] h = h"
| "write_indexed fmt i (p # ps) h =
     write_indexed fmt (Suc i) ps (SetHeader (Printf_index fmt i) p h)"

text \<open>
  \<^verbatim>\<open>HeaderData::UpdateDict\<close>, in the order of its statements: the standard headers, the
  generator tag and the extended information, the two indexed series, and the
  canonical order.  \<open>version\<close> stands for the macro \<^verbatim>\<open>POEDIT_VERSION\<close>, whose header is not
  among the sources.
\<close>

definition UpdateDict_standard :: "HeaderData \<Rightarrow> HeaderData" where
  "UpdateDict_standard h0 =
     (let h = SetHeader ''Project-Id-Version'' (Project h0) h0;
          h = SetHeader ''POT-Creation-Date'' (CreationDate h) h;
          h = SetHeader ''PO-Revision-Date'' (RevisionDate h) h;
          h = (if TranslatorEmail h = [] then
                 (if Translator h \<noteq> [] then SetHeader ''Last-Translator'' (Translator h) h
                  else if \<not> HasHeader ''Last-Translator'' h
                  then SetHeader ''Last-Translator'' (Translator h) h
                  else h)
               else
                 (if Translator h = [] then SetHeader ''Last-Translator'' (TranslatorEmail h) h
                  else SetHeader ''Last-Translator''
                         (Translator h @ '' <'' @ TranslatorEmail h @ ''>'') h));
          h = SetHeader ''Language-Team'' (LanguageTeam h) h;
          h = SetHeader ''MIME-Version'' ''1.0'' h;
          h = SetHeader ''Content-Type'' (''text/plain; charset='' @ Charset h) h;
          h = SetHeader ''Content-Transfer-Encoding'' ''8bit'' h;
          h = SetHeaderNotEmpty ''Language'' (Code (Lang h)) h
      in h)"

definition UpdateDict_extended :: "string \<Rightarrow> HeaderData \<Rightarrow> HeaderData" where
  "UpdateDict_extended version h0 =
     (let h = SetHeader ''X-Generator'' (''Poedit '' @ version) h0;
          h = SetHeaderNotEmpty ''X-Poedit-SourceCharset'' (SourceCodeCharset h) h;
          h = (if Keywords h \<noteq> []
               then SetHeader ''X-Poedit-KeywordsList'' (butlast (keywords_loop (Keywords h) [])) h
               else h);
          h = SetHeaderNotEmpty ''X-Poedit-Basepath'' (BasePath h) h
      in h)"

definition UpdateDict_paths :: "HeaderData \<Rightarrow> HeaderData" where
  "UpdateDict_paths h0 =
     (let h = delete_indexed ''X-Poedit-SearchPath-'' 0 h0;
          h = delete_indexed ''X-Poedit-SearchPathExcluded-'' 0 h;
          h = write_indexed ''X-Poedit-SearchPath-'' 0 (SearchPaths h) h;
          h = write_indexed ''X-Poedit-SearchPathExcluded-'' 0 (SearchPathsExcluded h) h
      in h)"

definition UpdateDict :: "string \<Rightarrow> HeaderData \<Rightarrow> HeaderData" where
  "UpdateDict version h =
     NormalizeHeaderOrder (UpdateDict_paths (UpdateDict_extended version (UpdateDict_standard h)))"

subsection \<open>From entries to fields\<close>

definition FixBrokenSearchPathValue :: "string \<Rightarrow> string" where
  "FixBrokenSearchPathValue p0 =
     (if p0 = [] then p0
      else let p = map (\<lambda>c. if c = CHR 0x5C then CHR ''/'' else c) p0
           in if last p = CHR ''/'' then butlast p else p)"

text \<open>
  The loop that reads an indexed series probes the indices in turn until one is
  missing.  Distinct indices print differently, so only finitely many of them are
  present and the loop ends.
\<close>

lemma digit_char_inj: "a < 10 \<Longrightarrow> b < 10 \<Longrightarrow> digit_char a = digit_char b \<Longrightarrow> a = b"
proof -
  assume a: "a < 10" and b: "b < 10" and e: "digit_char a = digit_char b"
  from a have "a \<in> {0,1,2,3,4,5,6,7,8,9}" by auto
  moreover from b have "b \<in> {0,1,2,3,4,5,6,7,8,9}" by auto
  ultimately show "a = b" using e
    by (elim insertE emptyE) (simp_all add: digit_char_def)
qed

lemma digit_char_mod: "digit_char (n mod 10) = digit_char n"
  by (simp add: digit_char_def)

lemma decimal_snoc: "decimal n = (if n < 10 then [] else decimal (n div 10)) @ [digit_char n]"
  by (subst decimal.simps) simp

lemma decimal_inj: "decimal m = decimal n \<Longrightarrow> m = n"
proof (induction m arbitrary: n rule: decimal.induct)
  case (1 m)
  from "1.prems" have e: "(if m < 10 then [] else decimal (m div 10)) @ [digit_char m] =
      (if n < 10 then [] else decimal (n div 10)) @ [digit_char n]"
    using decimal_snoc [of m] decimal_snoc [of n] by simp
  then have d: "digit_char (m mod 10) = digit_char (n mod 10)"
    by (simp add: digit_char_mod)
  then have m10: "m mod 10 = n mod 10" by (auto intro: digit_char_inj)
  have ne: "decimal k \<noteq> []" for k using decimal_snoc [of k] by simp
  show ?case
  proof (cases "m < 10")
    case True
    with e ne [of "n div 10"] have "n < 10" by (auto split: if_splits)
    with True m10 show ?thesis by simp
  next
    case False
    with e ne [of "m div 10"] have n: "\<not> n < 10" by (auto split: if_splits)
    with False e have "decimal (m div 10) = decimal (n div 10)" by simp
    with "1.IH" False have "m div 10 = n div 10" by simp
    with m10 show ?thesis by (metis div_mult_mod_eq)
  qed
qed

lemma Printf_index_inj: "Printf_index fmt i = Printf_index fmt j \<Longrightarrow> i = j"
  by (simp add: Printf_index_def decimal_inj)

lemma HasHeader_iff: "HasHeader key h = (key \<in> Key ` set (m_entries h))"
  by (simp add: HasHeader_def Find_def find_entry_None)

function read_indexed :: "string \<Rightarrow> nat \<Rightarrow> HeaderData \<Rightarrow> string list \<Rightarrow> string list" where
  "read_indexed fmt i h paths =
     (let path = Printf_index fmt i
      in if \<not> HasHeader path h then paths
         else let p = FixBrokenSearchPathValue (GetHeader path h)
              in read_indexed fmt (Suc i) h (if p \<noteq> [] then paths @ [p] else paths))"
  by pat_completeness auto
termination
proof (relation "measure (\<lambda>(fmt, i, h, paths). card {j. i \<le> j \<and> HasHeader (Printf_index fmt j) h})")
  show "wf (measure (\<lambda>(fmt, i, h, paths). card {j. i \<le> j \<and> HasHeader (Printf_index fmt j) h}))"
    by simp
next
  fix fmt :: string and i :: nat and h :: HeaderData and paths x xa :: "string list"
    and path p :: string
  assume path: "path = Printf_index fmt i" and has: "\<not> \<not> HasHeader path h"
  let ?A = "\<lambda>i. {j. i \<le> j \<and> HasHeader (Printf_index fmt j) h}"
  have "inj (Printf_index fmt)" by (rule injI) (rule Printf_index_inj)
  then have "finite (Printf_index fmt -` (Key ` set (m_entries h)))"
    by (intro finite_vimageI) simp_all
  moreover have "?A i \<subseteq> Printf_index fmt -` (Key ` set (m_entries h))"
    by (auto simp: HasHeader_iff)
  ultimately have fin: "finite (?A i)" by (rule rev_finite_subset)
  have "i \<in> ?A i" "i \<notin> ?A (Suc i)" using path has by auto
  moreover have "?A (Suc i) \<subseteq> ?A i" by auto
  ultimately have "?A (Suc i) \<subset> ?A i" by blast
  with fin have "card (?A (Suc i)) < card (?A i)" by (rule psubset_card_mono)
  then show "((fmt, Suc i, h, if p \<noteq> [] then paths @ [p] else paths), (fmt, i, h, paths))
      \<in> measure (\<lambda>(fmt, i, h, paths). card {j. i \<le> j \<and> HasHeader (Printf_index fmt j) h})"
    by simp
qed

declare read_indexed.simps [simp del]

text \<open>
  \<^verbatim>\<open>HeaderData::ParseDict\<close>, in the order of its statements.  The language collaborator is
  not among the sources: \<^verbatim>\<open>Language::TryParse\<close> and \<^verbatim>\<open>Language::FromLegacyNames\<close> are
  parameters.
\<close>

definition ParseDict_standard :: "HeaderData \<Rightarrow> HeaderData" where
  "ParseDict_standard h0 =
     (let h = h0\<lparr>Project := GetHeader ''Project-Id-Version'' h0\<rparr>;
          h = h\<lparr>CreationDate := GetHeader ''POT-Creation-Date'' h\<rparr>;
          h = h\<lparr>RevisionDate := GetHeader ''PO-Revision-Date'' h\<rparr>;
          dummy = GetHeader ''Last-Translator'' h;
          h = (if dummy \<noteq> [] then
                 (let tkn = tokenize dummy ''<>''
                  in if length tkn \<noteq> 2 then h\<lparr>Translator := dummy, TranslatorEmail := []\<rparr>
                     else h\<lparr>Translator := Strip trailing (tkn ! 0), TranslatorEmail := tkn ! 1\<rparr>)
               else h);
          h = h\<lparr>LanguageTeam := GetHeader ''Language-Team'' h\<rparr>;
          ctype = GetHeader ''Content-Type'' h;
          h = (case find_str ''; charset='' ctype of
                 Some charsetPos \<Rightarrow>
                   h\<lparr>Charset := Strip both (Mid ctype (charsetPos + length ''; charset=''))\<rparr>
               | None \<Rightarrow> h\<lparr>Charset := ''UTF-8''\<rparr>)
      in h)"

definition ParseDict_language ::
  "(string \<Rightarrow> Language) \<Rightarrow> (string \<Rightarrow> string \<Rightarrow> Language) \<Rightarrow> HeaderData \<Rightarrow> HeaderData" where
  "ParseDict_language TryParse FromLegacyNames h0 =
     (let h = h0\<lparr>Lang := Language []\<rparr>;
          languageCode = GetHeader ''Language'' h;
          h = (if languageCode \<noteq> [] then h\<lparr>Lang := TryParse languageCode\<rparr> else h);
          h = (if \<not> IsValid (Lang h) then
                 (let languageCode = GetHeader ''X-Language'' h
                  in if languageCode \<noteq> [] then h\<lparr>Lang := TryParse languageCode\<rparr> else h)
               else h);
          h = (if \<not> IsValid (Lang h) then
                 (let X_Language = GetHeader ''X-Poedit-Language'' h;
                      X_Country = GetHeader ''X-Poedit-Country'' h
                  in if X_Language \<noteq> [] then h\<lparr>Lang := FromLegacyNames X_Language X_Country\<rparr>
                     else h)
               else h);
          h = DeleteHeader ''X-Poedit-Language'' h;
          h = DeleteHeader ''X-Poedit-Country'' h
      in h)"

definition ParseDict_extended :: "HeaderData \<Rightarrow> HeaderData" where
  "ParseDict_extended h0 =
     (let h = h0\<lparr>SourceCodeCharset := GetHeader ''X-Poedit-SourceCharset'' h0\<rparr>;
          h = h\<lparr>BasePath := FixBrokenSearchPathValue (GetHeader ''X-Poedit-Basepath'' h)\<rparr>;
          h = h\<lparr>Keywords := []\<rparr>;
          kwlist = GetHeader ''X-Poedit-KeywordsList'' h;
          h = (if kwlist \<noteq> [] then h\<lparr>Keywords := tokenize kwlist '';''\<rparr>
               else
                 (let kw = GetHeader ''X-Poedit-Keywords'' h
                  in if kw \<noteq> []
                     then DeleteHeader ''X-Poedit-Keywords'' (h\<lparr>Keywords := tokenize kw '',''\<rparr>)
                     else h))
      in h)"

definition ParseDict_paths :: "HeaderData \<Rightarrow> HeaderData" where
  "ParseDict_paths h0 =
     (let h = h0\<lparr>SearchPaths := read_indexed ''X-Poedit-SearchPath-'' 0 h0 []\<rparr>;
          h = h\<lparr>SearchPathsExcluded := read_indexed ''X-Poedit-SearchPathExcluded-'' 0 h []\<rparr>
      in h)"

definition ParseDict ::
  "(string \<Rightarrow> Language) \<Rightarrow> (string \<Rightarrow> string \<Rightarrow> Language) \<Rightarrow> HeaderData \<Rightarrow> HeaderData" where
  "ParseDict TryParse FromLegacyNames h =
     ParseDict_paths (ParseDict_extended
       (ParseDict_language TryParse FromLegacyNames (ParseDict_standard h)))"

subsection \<open>Wire text\<close>

text \<open>
  \<^verbatim>\<open>HeaderData::FromString\<close>.  The calls of \<^verbatim>\<open>wxLogError\<close> are the errors it records, in
  order; the result pairs them with the new header.
\<close>

datatype LogError = Malformed_header string

fun parse_header_lines ::
  "string list \<Rightarrow> Entry list \<Rightarrow> LogError list \<Rightarrow> Entry list \<times> LogError list" where
  "parse_header_lines [] entries errors = (entries, errors)"
| "parse_header_lines (ln # lns) entries errors =
     (case find_char CHR '':'' ln of
        None \<Rightarrow> parse_header_lines lns entries (errors @ [Malformed_header ln])
      | Some pos \<Rightarrow>
          parse_header_lines lns
            (entries @ [\<lparr>Key = Strip both (substr ln 0 pos),
                          Value = Strip both (substr_from ln (pos + 1))\<rparr>])
            errors)"

definition FromString ::
  "(string \<Rightarrow> Language) \<Rightarrow> (string \<Rightarrow> string \<Rightarrow> Language) \<Rightarrow> string \<Rightarrow> HeaderData
     \<Rightarrow> LogError list \<times> HeaderData" where
  "FromString TryParse FromLegacyNames str h =
     (let (entries, errors) = parse_header_lines (tokenize str ''\<newline>'') [] []
      in (errors, ParseDict TryParse FromLegacyNames (h\<lparr>m_entries := entries\<rparr>)))"



section \<open>Catalog items\<close>

text \<open>
  Modelled from the spec: the class declarations (\<^verbatim>\<open>catalog.h\<close>) are not among the
  sources, so the records below list the attributes that section 3 of the specification
  gives a translation unit and that \<^verbatim>\<open>catalog.cpp\<close> reads or writes, under the member
  names used there.  A \<^verbatim>\<open>wxString\<close> is a \<^typ>\<open>string\<close>, a \<^verbatim>\<open>wxArrayString\<close> a
  \<^typ>\<open>string list\<close>, a possibly null \<^verbatim>\<open>shared_ptr\<close> an \<^typ>\<open>'a option\<close>.
\<close>

record SideloadedItemData =
  source_string :: string
  source_plural_string :: string
  extracted_comments :: "string list"

record CatalogItem =
  m_string :: string
  m_plural :: string
  m_hasPlural :: bool
  m_translations :: "string list"
  m_isFuzzy :: bool
  m_isTranslated :: bool
  m_isPreTranslated :: bool
  m_isModified :: bool
  m_moreFlags :: string
  m_oldMsgid :: "string list"
  m_lineNum :: int
  m_extractedComments :: "string list"
  m_issue :: "string option"
  m_sideloaded :: "SideloadedItemData option"

text \<open>
  Modelled from the spec: the inline accessors of \<^verbatim>\<open>catalog.h\<close>.  The raw accessors read
  the item's own fields; the plain ones read the sideload overlay when one is attached
  (``overlaid source text/plural/comments'').
\<close>

definition GetRawString :: "CatalogItem \<Rightarrow> string" where
  "GetRawString it = m_string it"

definition GetString :: "CatalogItem \<Rightarrow> string" where
  "GetString it =
     (case m_sideloaded it of Some d \<Rightarrow> source_string d | None \<Rightarrow> m_string it)"

definition GetPluralString :: "CatalogItem \<Rightarrow> string" where
  "GetPluralString it =
     (case m_sideloaded it of Some d \<Rightarrow> source_plural_string d | None \<Rightarrow> m_plural it)"

definition HasPlural :: "CatalogItem \<Rightarrow> bool" where
  "HasPlural it = m_hasPlural it"

definition HasExtractedComments :: "CatalogItem \<Rightarrow> bool" where
  "HasExtractedComments it =
     (case m_sideloaded it of Some d \<Rightarrow> extracted_comments d \<noteq> []
      | None \<Rightarrow> m_extractedComments it \<noteq> [])"

definition GetExtractedComments :: "CatalogItem \<Rightarrow> string list" where
  "GetExtractedComments it =
     (case m_sideloaded it of Some d \<Rightarrow> extracted_comments d
      | None \<Rightarrow> m_extractedComments it)"

definition GetLineNumber :: "CatalogItem \<Rightarrow> int" where
  "GetLineNumber it = m_lineNum it"

definition GetNumberOfTranslations :: "CatalogItem \<Rightarrow> nat" where
  "GetNumberOfTranslations it = length (m_translations it)"

definition IsTranslated :: "CatalogItem \<Rightarrow> bool" where
  "IsTranslated it = m_isTranslated it"

definition ClearIssue :: "CatalogItem \<Rightarrow> CatalogItem" where
  "ClearIssue it = it\<lparr>m_issue := None\<rparr>"

definition AttachSideloadedData :: "SideloadedItemData \<Rightarrow> CatalogItem \<Rightarrow> CatalogItem" where
  "AttachSideloadedData d it = it\<lparr>m_sideloaded := Some d\<rparr>"

text \<open>
  Modelled from the spec: \<^verbatim>\<open>UpdateInternalRepresentation\<close> is the hook through which a
  format-specific subclass refreshes its own on-disk representation of the item.  That
  representation is outside the attributes listed above, which the hook leaves as they
  are.
\<close>

definition UpdateInternalRepresentation :: "CatalogItem \<Rightarrow> CatalogItem" where
  "UpdateInternalRepresentation it = it"

subsection \<open>Flags\<close>

text \<open>
  \<^verbatim>\<open>CatalogItem::GetFormatFlag\<close>.  The count \<^verbatim>\<open>pos-space-1\<close> is computed in \<^verbatim>\<open>size_t\<close>; it
  cannot wrap, because the character at \<open>pos\<close> is a hyphen, so that a blank found at or
  before \<open>pos\<close> is before it (lemma \<open>format_token\<close> below covers both cases).
\<close>

definition GetFormatFlag :: "CatalogItem \<Rightarrow> string" where
  "GetFormatFlag it =
     (if m_moreFlags it = [] then []
      else case find_str ''-format'' (m_moreFlags it) of
             None \<Rightarrow> []
           | Some pos \<Rightarrow>
               let space = find_last_of [CHR '' '', CHR 0x09] (m_moreFlags it) pos;
                   format = (case space of
                               None \<Rightarrow> substr (m_moreFlags it) 0 pos
                             | Some sp \<Rightarrow> substr (m_moreFlags it) (sp + 1) (pos - sp - 1))
               in if starts_with format ''no-'' then [] else format)"

subsection \<open>Translation slots\<close>

text \<open>\<^verbatim>\<open>CatalogItem::GetTranslation\<close>: a const method, hence a function of the item alone.\<close>

definition GetTranslation :: "CatalogItem \<Rightarrow> nat \<Rightarrow> string" where
  "GetTranslation it idx =
     (if idx \<ge> GetNumberOfTranslations it then [] else m_translations it ! idx)"

text \<open>
  The scan shared by \<^verbatim>\<open>SetTranslation\<close> and \<^verbatim>\<open>SetTranslations\<close>: the flag starts
  true and is cleared at the first empty slot.
\<close>

fun scan_translated :: "string list \<Rightarrow> bool" where
  "scan_translated [] = True"
| "scan_translated (t # ts) = (if t = [] then False else scan_translated ts)"

text \<open>The padding loop \<^verbatim>\<open>while (idx >= m_translations.GetCount()) Add(wxEmptyString)\<close>.\<close>

definition pad_translations :: "nat \<Rightarrow> string list \<Rightarrow> string list" where
  "pad_translations idx ts = ts @ replicate (Suc idx - length ts) []"

definition SetTranslation :: "string \<Rightarrow> nat \<Rightarrow> CatalogItem \<Rightarrow> CatalogItem" where
  "SetTranslation t idx it =
     (let ts = (pad_translations idx (m_translations it))[idx := t];
          it1 = ClearIssue (it\<lparr>m_translations := ts\<rparr>);
          it2 = it1\<lparr>m_isTranslated := scan_translated ts\<rparr>
      in UpdateInternalRepresentation it2)"

definition SetTranslations :: "string list \<Rightarrow> CatalogItem \<Rightarrow> CatalogItem" where
  "SetTranslations t it =
     (let it1 = ClearIssue (it\<lparr>m_translations := t\<rparr>);
          it2 = it1\<lparr>m_isTranslated := scan_translated t\<rparr>
      in UpdateInternalRepresentation it2)"

text \<open>
  One step of the loops of \<^verbatim>\<open>SetTranslationFromSource\<close>: a slot that differs from the
  wanted text is overwritten and the item is marked modified.  The result pairs the new
  slots with the new value of \<^verbatim>\<open>m_isModified\<close>.
\<close>

fun copy_into_slots :: "string \<Rightarrow> string list \<Rightarrow> bool \<Rightarrow> string list \<times> bool" where
  "copy_into_slots s [] modified = ([], modified)"
| "copy_into_slots s (t # ts) modified =
     (let (ts', modified') = copy_into_slots s ts (if t \<noteq> s then True else modified)
      in (s # ts', modified'))"

text \<open>
  \<^verbatim>\<open>CatalogItem::SetTranslationFromSource\<close>.  The C++ dereferences
  \<^verbatim>\<open>m_translations.begin()\<close> without a check, so an item with no slot at all is outside
  its domain: the model returns \<^const>\<open>None\<close> there.
\<close>

definition SetTranslationFromSource :: "CatalogItem \<Rightarrow> CatalogItem option" where
  "SetTranslationFromSource it =
     (let it1 = (ClearIssue it)\<lparr>m_isFuzzy := False, m_isPreTranslated := False,
                                m_isTranslated := True\<rparr>
      in case m_translations it1 of
           [] \<Rightarrow> None
         | t0 # rest \<Rightarrow>
             let modified0 = (if t0 \<noteq> m_string it1 then True else m_isModified it1);
                 (rest', modified1) =
                    (if m_hasPlural it1 then copy_into_slots (m_plural it1) rest modified0
                     else (rest, modified0))
             in Some (UpdateInternalRepresentation
                        (it1\<lparr>m_translations := m_string it1 # rest',
                             m_isModified := modified1\<rparr>)))"

fun clear_slots :: "string list \<Rightarrow> bool \<Rightarrow> string list \<times> bool" where
  "clear_slots [] modified = ([], modified)"
| "clear_slots (t # ts) modified =
     (let (ts', modified') = clear_slots ts (if t \<noteq> [] then True else modified)
      in ([] # ts', modified'))"

definition ClearTranslation :: "CatalogItem \<Rightarrow> CatalogItem" where
  "ClearTranslation it =
     (let it1 = it\<lparr>m_isFuzzy := False, m_isPreTranslated := False, m_isTranslated := False\<rparr>;
          (ts', modified') = clear_slots (m_translations it1) (m_isModified it1)
      in UpdateInternalRepresentation (it1\<lparr>m_translations := ts', m_isModified := modified'\<rparr>))"

text \<open>\<^verbatim>\<open>CatalogItem::GetPluralFormsCount\<close>.\<close>

definition Item_GetPluralFormsCount :: "CatalogItem \<Rightarrow> nat" where
  "Item_GetPluralFormsCount it =
     (let trans = GetNumberOfTranslations it
      in if \<not> HasPlural it \<or> trans = 0 then 0 else trans - 1)"

section \<open>The catalog\<close>

text \<open>
  Modelled from the spec: the declaration of \<^verbatim>\<open>Catalog\<close> (\<^verbatim>\<open>catalog.h\<close>) is not among the
  sources.  Of the aggregate's attributes the model keeps the ordered items, the header
  and the optional sideload context, which refers to the reference catalog.  The catalog
  owns its items exclusively, so the vector of item pointers is a list of item values;
  positions in the list are the indices the C++ returns.
\<close>

datatype SideloadedCatalogData =
  SideloadedCatalogData (reference_file: Catalog) (source_language: Language)
and Catalog =
  Catalog (m_items: "CatalogItem list") (m_header: HeaderData)
    (cat_sideloaded: "SideloadedCatalogData option")

definition items :: "Catalog \<Rightarrow> CatalogItem list" where
  "items c = m_items c"

definition GetLanguage :: "Catalog \<Rightarrow> Language" where
  "GetLanguage c = Lang (m_header c)"

subsection \<open>Line lookup\<close>

text \<open>
  The loop of \<^verbatim>\<open>Catalog::FindItemIndexByLine\<close>, with its variable \<^verbatim>\<open>last\<close> as the accumulator \<open>lastix\<close>: it returns
  from inside the loop at the first item beyond the line.
\<close>

fun find_index_loop :: "CatalogItem list \<Rightarrow> int \<Rightarrow> int \<Rightarrow> int" where
  "find_index_loop [] lineno lastix = lastix"
| "find_index_loop (i # rest) lineno lastix =
     (if GetLineNumber i > lineno then lastix else find_index_loop rest lineno (lastix + 1))"

definition FindItemIndexByLine :: "Catalog \<Rightarrow> int \<Rightarrow> int" where
  "FindItemIndexByLine c lineno = find_index_loop (m_items c) lineno (- 1)"

definition FindItemByLine :: "Catalog \<Rightarrow> int \<Rightarrow> CatalogItem option" where
  "FindItemByLine c lineno =
     (let i = FindItemIndexByLine c lineno
      in if i = - 1 then None else Some (m_items c ! nat i))"

subsection \<open>Pruning translations that repeat the source\<close>

text \<open>\<^verbatim>\<open>Catalog::GetPluralFormsCount\<close>: the running maximum over the items.\<close>

fun plural_forms_loop :: "CatalogItem list \<Rightarrow> nat \<Rightarrow> nat" where
  "plural_forms_loop [] count = count"
| "plural_forms_loop (i # rest) count =
     plural_forms_loop rest (max count (Item_GetPluralFormsCount i))"

definition items_GetPluralFormsCount :: "CatalogItem list \<Rightarrow> nat" where
  "items_GetPluralFormsCount its = plural_forms_loop its 0"

definition GetPluralFormsCount :: "Catalog \<Rightarrow> nat" where
  "GetPluralFormsCount c = items_GetPluralFormsCount (m_items c)"

text \<open>
  The loop of \<^verbatim>\<open>Catalog::RemoveSameAsSourceTranslations\<close>.  It mutates the items in place
  while it walks them, and it asks the catalog for its plural-forms count inside the
  loop: \<open>seen\<close> are the items already visited, as the loop left them, so that the count
  is taken over the catalog as it is at that moment.
\<close>

fun remove_same_loop ::
  "CatalogItem list \<Rightarrow> CatalogItem list \<Rightarrow> bool \<Rightarrow> bool \<times> CatalogItem list" where
  "remove_same_loop seen [] changed = (changed, seen)"
| "remove_same_loop seen (i # rest) changed =
     (if GetString i = GetTranslation i 0 then
        (if HasPlural i \<and>
            (items_GetPluralFormsCount (seen @ i # rest) \<noteq> 2 \<or>
             GetPluralString i \<noteq> GetTranslation i 1)
         then remove_same_loop (seen @ [i]) rest changed
         else remove_same_loop (seen @ [ClearTranslation i]) rest True)
      else remove_same_loop (seen @ [i]) rest changed)"

definition RemoveSameAsSourceTranslations :: "Catalog \<Rightarrow> bool \<times> Catalog" where
  "RemoveSameAsSourceTranslations c =
     (let (changed, its) = remove_same_loop [] (m_items c) False
      in (changed, Catalog its (m_header c) (cat_sideloaded c)))"

subsection \<open>Sideloading from a reference catalog\<close>

text \<open>
  The first loop of \<^verbatim>\<open>SideloadSourceDataFromReferenceFile\<close> fills a \<^verbatim>\<open>std::map\<close> from raw
  source string to reference item; assigning to a key that is already there replaces
  its item.
\<close>

fun build_refItems ::
  "CatalogItem list \<Rightarrow> (string \<rightharpoonup> CatalogItem) \<Rightarrow> (string \<rightharpoonup> CatalogItem)" where
  "build_refItems [] refItems = refItems"
| "build_refItems (iref # rest) refItems =
     build_refItems rest (refItems(GetRawString iref \<mapsto> iref))"

text \<open>The overlay built for a matched reference item; its members start out empty.\<close>

definition make_SideloadedItemData :: "CatalogItem \<Rightarrow> SideloadedItemData" where
  "make_SideloadedItemData rdata =
     (let d = \<lparr>source_string = [], source_plural_string = [], extracted_comments = []\<rparr>;
          d = d\<lparr>source_string := GetTranslation rdata 0\<rparr>;
          d = (if HasPlural rdata then d\<lparr>source_plural_string := GetTranslation rdata 1\<rparr>
               else d);
          d = (if HasExtractedComments rdata
               then d\<lparr>extracted_comments := GetExtractedComments rdata\<rparr> else d)
      in d)"

text \<open>
  The second loop, over the target's items.  The reference catalog is a catalog of its
  own: none of its items is an item of the target.
\<close>

fun sideload_loop :: "(string \<rightharpoonup> CatalogItem) \<Rightarrow> CatalogItem list \<Rightarrow> CatalogItem list" where
  "sideload_loop refItems [] = []"
| "sideload_loop refItems (i # rest) =
     (case refItems (GetRawString i) of
        None \<Rightarrow> i # sideload_loop refItems rest
      | Some rdata \<Rightarrow>
          if GetTranslation rdata 0 = [] then i # sideload_loop refItems rest
          else AttachSideloadedData (make_SideloadedItemData rdata) i
                 # sideload_loop refItems rest)"

definition SideloadSourceDataFromReferenceFile :: "Catalog \<Rightarrow> Catalog \<Rightarrow> Catalog" where
  "SideloadSourceDataFromReferenceFile ref c =
     (let refItems = build_refItems (items ref) Map.empty;
          its = sideload_loop refItems (items c)
      in Catalog its (m_header c) (Some (SideloadedCatalogData ref (GetLanguage ref))))"

subsection \<open>Notions used to state the properties\<close>

text \<open>
  The lines of a header text are the non-empty runs of characters between line feeds.
  A line with a colon stands for the entry whose key and value are the text before and
  after its first colon, stripped of surrounding white space.
\<close>

fun lines_from :: "string \<Rightarrow> string \<Rightarrow> string list" where
  "lines_from [] cur = [cur]"
| "lines_from (c # cs) cur =
     (if c = CHR ''\<newline>'' then cur # lines_from cs [] else lines_from cs (cur @ [c]))"

definition text_lines :: "string \<Rightarrow> string list" where
  "text_lines str = filter (\<lambda>l. l \<noteq> []) (lines_from str [])"

definition has_colon :: "string \<Rightarrow> bool" where
  "has_colon l = (CHR '':'' \<in> set l)"

definition line_entry :: "string \<Rightarrow> Entry" where
  "line_entry l =
     \<lparr>Key = Strip both (takeWhile (\<lambda>c. c \<noteq> CHR '':'') l),
      Value = Strip both (drop 1 (dropWhile (\<lambda>c. c \<noteq> CHR '':'') l))\<rparr>"

text \<open>
  The legacy keys that \<^verbatim>\<open>ParseDict\<close> removes from a list of entries: the old language and
  country keys always, the old keywords key when it is the one the keywords are read
  from.
\<close>

definition legacy_keys :: "Entry list \<Rightarrow> string set" where
  "legacy_keys es =
     {''X-Poedit-Language'', ''X-Poedit-Country''} \<union>
     (if map_of (map (\<lambda>e. (Key e, Value e)) es) ''X-Poedit-KeywordsList'' \<in> {None, Some []} \<and>
         map_of (map (\<lambda>e. (Key e, Value e)) es) ''X-Poedit-Keywords'' \<notin> {None, Some []}
      then {''X-Poedit-Keywords''} else {})"

text \<open>The values stored under a key, in the order of their entries.\<close>

definition values_of :: "string \<Rightarrow> HeaderData \<Rightarrow> string list" where
  "values_of key h = map Value (filter (\<lambda>e. Key e = key) (m_entries h))"

text \<open>
  Occurrences of a substring, the token that ends at a position (bounded by a blank or a
  tab on its left), and the format flag read off an occurrence of \<open>-format\<close>: none when
  there is no occurrence or when the token before it starts with \<open>no-\<close>.
\<close>

definition occurs_at :: "string \<Rightarrow> string \<Rightarrow> nat \<Rightarrow> bool" where
  "occurs_at sub s i = (i \<le> length s \<and> prefix sub (drop i s))"

definition first_occurrence :: "string \<Rightarrow> string \<Rightarrow> nat option" where
  "first_occurrence sub s = find (occurs_at sub s) [0..<Suc (length s)]"

definition last_occurrence :: "string \<Rightarrow> string \<Rightarrow> nat option" where
  "last_occurrence sub s = find (occurs_at sub s) (rev [0..<Suc (length s)])"

definition preceding_token :: "string \<Rightarrow> string" where
  "preceding_token pre = rev (takeWhile (\<lambda>c. c \<notin> set [CHR '' '', CHR 0x09]) (rev pre))"

definition format_flag_at :: "nat option \<Rightarrow> string \<Rightarrow> string" where
  "format_flag_at occ flags =
     (case occ of
        None \<Rightarrow> []
      | Some pos \<Rightarrow>
          let tok = preceding_token (take pos flags)
          in if prefix ''no-'' tok then [] else tok)"

text \<open>
  An item repeats its source, for a catalog with \<open>n\<close> plural forms, when its primary
  translation equals its source string and, if it has a plural, \<open>n\<close> is 2 and its second
  translation equals its plural source.
\<close>

definition same_as_source :: "nat \<Rightarrow> CatalogItem \<Rightarrow> bool" where
  "same_as_source n i =
     (GetString i = GetTranslation i 0 \<and>
      (if HasPlural i then n = 2 \<and> GetPluralString i = GetTranslation i 1 else True))"

text \<open>The reference item matched to a target item: the last one with its raw source string.\<close>

definition matched_reference :: "Catalog \<Rightarrow> CatalogItem \<Rightarrow> CatalogItem option" where
  "matched_reference ref i =
     find (\<lambda>r. GetRawString r = GetRawString i) (rev (m_items ref))"

text \<open>
  The overlay that carries a reference item's translation, its plural translation when
  it has a plural, and its extracted comments when it has any.
\<close>

definition overlay_of :: "CatalogItem \<Rightarrow> SideloadedItemData" where
  "overlay_of r =
     \<lparr>source_string = GetTranslation r 0,
      source_plural_string = (if HasPlural r then GetTranslation r 1 else []),
      extracted_comments = (if HasExtractedComments r then GetExtractedComments r else [])\<rparr>"

text \<open>
  The keys of a header, in order.  A key is unknown when it is not in the canonical
  list (its rank is the one past the last canonical key), and it is a series key when it
  is \<^verbatim>\<open>X-Poedit-SearchPath-\<close> or \<^verbatim>\<open>X-Poedit-SearchPathExcluded-\<close> followed by a decimal numeral,
  as \<^verbatim>\<open>Printf("%i")\<close> writes one.
\<close>

definition is_digit :: "char \<Rightarrow> bool" where
  "is_digit c = (c \<in> set ''0123456789'')"

definition is_decimal :: "string \<Rightarrow> bool" where
  "is_decimal d = (d \<noteq> [] \<and> list_all is_digit d \<and> (length d = 1 \<or> hd d \<noteq> CHR ''0''))"

definition series_key :: "string \<Rightarrow> bool" where
  "series_key k =
     ((prefix ''X-Poedit-SearchPath-'' k \<and> is_decimal (drop (length ''X-Poedit-SearchPath-'') k)) \<or>
      (prefix ''X-Poedit-SearchPathExcluded-'' k \<and>
       is_decimal (drop (length ''X-Poedit-SearchPathExcluded-'') k)))"

definition unknown_key :: "string \<Rightarrow> bool" where
  "unknown_key k = (header_rank k = 1 + int (length canonicalOrder))"

definition keys :: "HeaderData \<Rightarrow> string list" where
  "keys h = map Key (m_entries h)"







subsection \<open>A default-constructed item\<close>

definition blank_item :: CatalogItem where
  "blank_item = \<lparr>m_string = [], m_plural = [], m_hasPlural = False, m_translations = [],
     m_isFuzzy = False, m_isTranslated = False, m_isPreTranslated = False,
     m_isModified = False, m_moreFlags = [], m_oldMsgid = [], m_lineNum = 0,
     m_extractedComments = [], m_issue = None, m_sideloaded = None\<rparr>"

definition item_at_line :: "int \<Rightarrow> CatalogItem" where
  "item_at_line n = blank_item\<lparr>m_lineNum := n\<rparr>"

definition blank_header :: HeaderData where
  "blank_header = \<lparr>m_entries = [], Project = [], CreationDate = [], RevisionDate = [],
     Translator = [], TranslatorEmail = [], LanguageTeam = [], Charset = [],
     Lang = Language [], SourceCodeCharset = [], BasePath = [], Keywords = [],
     SearchPaths = [], SearchPathsExcluded = []\<rparr>"

definition catalog_of :: "CatalogItem list \<Rightarrow> Catalog" where
  "catalog_of its = Catalog its blank_header None"

definition translated_item :: "string \<Rightarrow> string \<Rightarrow> CatalogItem" where
  "translated_item src tr = blank_item\<lparr>m_string := src, m_translations := [tr]\<rparr>"

definition plural_item :: "string \<Rightarrow> string \<Rightarrow> string list \<Rightarrow> CatalogItem" where
  "plural_item src pl trs =
     blank_item\<lparr>m_string := src, m_plural := pl, m_hasPlural := True, m_translations := trs\<rparr>"

definition stale_header :: HeaderData where
  "stale_header = blank_header\<lparr>m_entries :=
     [\<lparr>Key = ''X-Poedit-SearchPath-0'', Value = ''a''\<rparr>,
      \<lparr>Key = ''X-Poedit-SearchPath-2'', Value = ''c''\<rparr>]\<rparr>"

definition contiguous_header :: HeaderData where
  "contiguous_header = blank_header\<lparr>m_entries :=
     [\<lparr>Key = ''X-Poedit-SearchPath-0'', Value = ''old''\<rparr>,
      \<lparr>Key = ''X-Poedit-SearchPath-1'', Value = ''older''\<rparr>,
      \<lparr>Key = ''X-Foo'', Value = ''bar''\<rparr>],
     SearchPaths := [''src''], SearchPathsExcluded := [''build'', ''tmp'']\<rparr>"

definition reordered_header :: HeaderData where
  "reordered_header = blank_header\<lparr>m_entries :=
     [\<lparr>Key = ''X-Poedit-SearchPath-0'', Value = ''src''\<rparr>,
      \<lparr>Key = ''X-Foo'', Value = ''bar''\<rparr>],
     SearchPaths := [''src'']\<rparr>"



section \<open>Properties of the header\<close>

subsection \<open>Looking a key up\<close>

definition lookup :: "string \<Rightarrow> Entry list \<Rightarrow> string option" where
  "lookup key es = map_of (map (\<lambda>e. (Key e, Value e)) es) key"

lemma lookup_Nil [simp]: "lookup key [] = None"
  by (simp add: lookup_def)

lemma lookup_Cons [simp]:
  "lookup key (e # es) = (if Key e = key then Some (Value e) else lookup key es)"
  by (auto simp: lookup_def)

lemma find_entry_lookup:
  "length pre = i \<Longrightarrow>
   map_option (\<lambda>k. Value ((pre @ es) ! k)) (find_entry key es i) = lookup key es"
proof (induction es arbitrary: pre i)
  case Nil
  then show ?case by simp
next
  case (Cons e es)
  show ?case
  proof (cases "Key e = key")
    case True
    with Cons.prems show ?thesis by (simp add: nth_append)
  next
    case False
    with Cons.IH [of "pre @ [e]" "Suc i"] Cons.prems show ?thesis by simp
  qed
qed

lemma GetHeader_lookup:
  "GetHeader key h = (case lookup key (m_entries h) of Some v \<Rightarrow> v | None \<Rightarrow> [])"
  using find_entry_lookup [where pre = "[]" and i = 0 and key = key and es = "m_entries h"]
  by (auto simp: GetHeader_def Find_def split: option.splits)

lemma HasHeader_lookup: "HasHeader key h = (lookup key (m_entries h) \<noteq> None)"
  using find_entry_lookup [where pre = "[]" and i = 0 and key = key and es = "m_entries h",
      symmetric]
  by (auto simp: HasHeader_def Find_def split: option.splits)

lemma DeleteHeader_filter:
  "DeleteHeader key h = h\<lparr>m_entries := filter (\<lambda>e. Key e \<noteq> key) (m_entries h)\<rparr>"
proof (cases "HasHeader key h")
  case True
  then show ?thesis by (simp add: DeleteHeader_def entries_without_filter)
next
  case False
  then have "key \<notin> Key ` set (m_entries h)" by (simp add: HasHeader_iff)
  then have "filter (\<lambda>e. Key e \<noteq> key) (m_entries h) = m_entries h"
    by (auto simp: filter_id_conv)
  with False show ?thesis by (simp add: DeleteHeader_def)
qed

lemma lookup_filter_neq:
  "lookup key (filter (\<lambda>e. Key e \<noteq> k) es) = (if key = k then None else lookup key es)"
  by (induction es) auto

subsection \<open>Parsing the wire text\<close>

lemma lines_from_split:
  "lines_from s cur =
     (cur @ takeWhile (\<lambda>c. c \<noteq> CHR ''\<newline>'') s) #
       (case dropWhile (\<lambda>c. c \<noteq> CHR ''\<newline>'') s of [] \<Rightarrow> [] | d # r \<Rightarrow> lines_from r [])"
  by (induction s arbitrary: cur) auto

lemma lines_from_only_newlines:
  "\<forall>c \<in> set s. c = CHR ''\<newline>'' \<Longrightarrow> filter (\<lambda>l. l \<noteq> []) (lines_from s []) = []"
  by (induction s) auto

lemma wx_tokens_newline:
  "wx_tokens wxTOKEN_STRTOK ''\<newline>'' b s = filter (\<lambda>l. l \<noteq> []) (lines_from s [])"
proof (induction s arbitrary: b rule: length_induct)
  case (1 s)
  let ?P = "\<lambda>c. c \<notin> set ''\<newline>''"
  have P: "?P = (\<lambda>c. c \<noteq> CHR ''\<newline>'')" by auto
  show ?case
  proof (cases "HasMoreTokens wxTOKEN_STRTOK ''\<newline>'' b s")
    case False
    then have "\<forall>c \<in> set s. c = CHR ''\<newline>''"
      by (auto simp: HasMoreTokens_def list_ex_iff split: if_splits)
    with False show ?thesis
      by (subst wx_tokens.simps) (simp add: lines_from_only_newlines)
  next
    case True
    show ?thesis
    proof (cases "dropWhile (\<lambda>c. c \<noteq> CHR ''\<newline>'') s")
      case Nil
      then have tw: "takeWhile (\<lambda>c. c \<noteq> CHR ''\<newline>'') s = s"
        by (metis takeWhile_dropWhile_id append_Nil2)
      from True have "s \<noteq> []"
        by (auto simp: HasMoreTokens_def list_ex_iff split: if_splits)
      with True show ?thesis
        by (subst wx_tokens.simps, subst lines_from_split) (simp add: P Nil tw)
    next
      case (Cons d r)
      have "length r < length s"
        using Cons length_dropWhile_le [of "\<lambda>c. c \<noteq> CHR ''\<newline>''" s] by simp
      with 1 have IH: "wx_tokens wxTOKEN_STRTOK ''\<newline>'' False r
          = filter (\<lambda>l. l \<noteq> []) (lines_from r [])" by blast
      from True show ?thesis
        by (subst wx_tokens.simps, subst lines_from_split) (simp add: P Cons IH)
    qed
  qed
qed

lemma tokenize_newline: "tokenize str ''\<newline>'' = text_lines str"
  by (simp add: tokenize_def default_mode_def wxIsspace_def text_lines_def wx_tokens_newline)

lemma find_char_None: "(find_char c l = None) = (c \<notin> set l)"
  by (induction l) auto

lemma find_char_Some:
  "find_char c l = Some pos \<Longrightarrow>
     take pos l = takeWhile (\<lambda>x. x \<noteq> c) l \<and> drop (Suc pos) l = drop 1 (dropWhile (\<lambda>x. x \<noteq> c) l)"
  by (induction l arbitrary: pos) (auto split: if_splits)

lemma parse_header_lines_eq:
  "parse_header_lines lns es errs =
     (es @ map line_entry (filter has_colon lns),
      errs @ map Malformed_header (filter (\<lambda>l. \<not> has_colon l) lns))"
proof (induction lns arbitrary: es errs)
  case Nil
  then show ?case by simp
next
  case (Cons ln lns)
  show ?case
  proof (cases "find_char CHR '':'' ln")
    case None
    then have "\<not> has_colon ln" by (simp add: has_colon_def find_char_None)
    with None Cons show ?thesis by simp
  next
    case (Some pos)
    then have "has_colon ln" using find_char_None [of "CHR '':''" ln] by (simp add: has_colon_def)
    with Some Cons find_char_Some [OF Some] show ?thesis
      by (simp add: line_entry_def substr_def substr_from_def)
  qed
qed

lemma filter_filter_keys:
  "filter (\<lambda>e. Key e \<notin> B) (filter (\<lambda>e. Key e \<notin> A) es) = filter (\<lambda>e. Key e \<notin> A \<union> B) es"
  by (induction es) auto

lemma DeleteHeader_filter_set:
  "DeleteHeader key h = h\<lparr>m_entries := filter (\<lambda>e. Key e \<notin> {key}) (m_entries h)\<rparr>"
  by (simp add: DeleteHeader_filter)

lemma ParseDict_standard_entries: "m_entries (ParseDict_standard h) = m_entries h"
  by (simp add: ParseDict_standard_def Let_def GetHeader_lookup split: option.splits)

lemma ParseDict_language_entries:
  "m_entries (ParseDict_language tp fl h) =
     filter (\<lambda>e. Key e \<notin> {''X-Poedit-Language'', ''X-Poedit-Country''}) (m_entries h)"
  by (simp add: ParseDict_language_def Let_def GetHeader_lookup DeleteHeader_filter_set
      filter_filter_keys)

lemma lookup_filter_notin:
  "k \<notin> A \<Longrightarrow> lookup k (filter (\<lambda>e. Key e \<notin> A) es) = lookup k es"
  by (induction es) auto

lemma ParseDict_extended_entries:
  "m_entries (ParseDict_extended h) =
     filter (\<lambda>e. Key e \<notin>
        (if lookup ''X-Poedit-KeywordsList'' (m_entries h) \<in> {None, Some []} \<and>
            lookup ''X-Poedit-Keywords'' (m_entries h) \<notin> {None, Some []}
         then {''X-Poedit-Keywords''} else {})) (m_entries h)"
  by (auto simp: ParseDict_extended_def Let_def GetHeader_lookup DeleteHeader_filter_set
      split: option.splits)

lemma ParseDict_paths_entries: "m_entries (ParseDict_paths h) = m_entries h"
  by (simp add: ParseDict_paths_def Let_def)

lemma ParseDict_entries:
  "m_entries (ParseDict tp fl h) =
     filter (\<lambda>e. Key e \<notin> legacy_keys (m_entries h)) (m_entries h)"
proof -
  let ?es = "filter (\<lambda>e. Key e \<notin> {''X-Poedit-Language'', ''X-Poedit-Country''}) (m_entries h)"
  have l: "lookup ''X-Poedit-KeywordsList'' ?es = lookup ''X-Poedit-KeywordsList'' (m_entries h)"
    "lookup ''X-Poedit-Keywords'' ?es = lookup ''X-Poedit-Keywords'' (m_entries h)"
    by (rule lookup_filter_notin, simp)+
  show ?thesis
    unfolding ParseDict_def ParseDict_paths_entries ParseDict_extended_entries
      ParseDict_language_entries ParseDict_standard_entries l
    by (simp add: filter_filter_keys legacy_keys_def lookup_def)
qed

text \<open>
  Claim C9, as amended.  For every input text, \<^verbatim>\<open>FromString\<close> returns (the model is a total
  function with no error result, as the C++ has no failing path).  The lines are the
  non-empty runs of characters between line feeds: an empty line is skipped and nothing is
  recorded for it.  An error is recorded for each line without a colon, which is skipped,
  and the parsing goes on.  Every line with a colon stands for one entry, whose key and
  value are the text before and after the first colon, stripped of surrounding white
  space: these entries, in the order of their lines, are the ones handed to \<^verbatim>\<open>ParseDict\<close>,
  which ends \<^verbatim>\<open>FromString\<close>.  The entries of the result are those entries without the ones
  under a legacy key, which \<^verbatim>\<open>ParseDict\<close> deletes.
\<close>

theorem FromString_lines:
  "FromString tp fl str h =
     (map Malformed_header (filter (\<lambda>l. \<not> has_colon l) (text_lines str)),
      ParseDict tp fl (h\<lparr>m_entries := map line_entry (filter has_colon (text_lines str))\<rparr>)) \<and>
   m_entries (snd (FromString tp fl str h)) =
     filter (\<lambda>e. Key e \<notin> legacy_keys (map line_entry (filter has_colon (text_lines str))))
       (map line_entry (filter has_colon (text_lines str)))"
  by (simp add: FromString_def tokenize_newline parse_header_lines_eq ParseDict_entries)

text \<open>
  The claim as stated, that every line with a colon yields an entry, fails for a line
  with a legacy key: the line \<^verbatim>\<open>X-Poedit-Language: Czech\<close> has a colon, and after
  \<^verbatim>\<open>FromString\<close> the header has no entry and no error is recorded.
\<close>

theorem FromString_legacy_line_counterexample:
  "has_colon ''X-Poedit-Language: Czech'' \<and>
   fst (FromString Language (\<lambda>l c. Language l) ''X-Poedit-Language: Czech'' blank_header) = [] \<and>
   m_entries (snd (FromString Language (\<lambda>l c. Language l) ''X-Poedit-Language: Czech''
     blank_header)) = []"
  by code_simp

subsection \<open>Writing a key\<close>

text \<open>Two headers have the same fields when they differ in their entries at most.\<close>

definition same_fields :: "HeaderData \<Rightarrow> HeaderData \<Rightarrow> bool" where
  "same_fields h h' = (h' = h\<lparr>m_entries := m_entries h'\<rparr>)"

fun upd :: "string \<Rightarrow> string \<Rightarrow> Entry list \<Rightarrow> Entry list" where
  "upd k v [] = [\<lparr>Key = k, Value = v\<rparr>]"
| "upd k v (e # es) = (if Key e = k then e\<lparr>Value := v\<rparr> # es else e # upd k v es)"

lemma find_entry_upd:
  "length pre = i \<Longrightarrow>
   (case find_entry key es i of
      Some k \<Rightarrow> (pre @ es)[k := ((pre @ es) ! k)\<lparr>Value := v\<rparr>]
    | None \<Rightarrow> (pre @ es) @ [\<lparr>Key = key, Value = v\<rparr>]) = pre @ upd key v es"
proof (induction es arbitrary: pre i)
  case Nil
  then show ?case by simp
next
  case (Cons e es)
  show ?case
  proof (cases "Key e = key")
    case True
    with Cons.prems show ?thesis by (simp add: nth_append list_update_append)
  next
    case False
    with Cons.IH [of "pre @ [e]" "Suc i"] Cons.prems show ?thesis
      by (simp cong: option.case_cong)
  qed
qed

lemma SetHeader_upd: "SetHeader key v h = h\<lparr>m_entries := upd key v (m_entries h)\<rparr>"
  using find_entry_upd [where pre = "[]" and i = 0 and key = key and es = "m_entries h" and v = v]
  by (auto simp: SetHeader_def Find_def split: option.splits)

lemma SetHeaderNotEmpty_upd:
  "SetHeaderNotEmpty key v h =
     h\<lparr>m_entries := (if v = [] then filter (\<lambda>e. Key e \<noteq> key) (m_entries h)
                      else upd key v (m_entries h))\<rparr>"
  by (simp add: SetHeaderNotEmpty_def SetHeader_upd DeleteHeader_filter)

lemma values_upd:
  "map Value (filter (\<lambda>e. Key e = k) (upd k' v es)) =
     (if k = k' then v # tl (map Value (filter (\<lambda>e. Key e = k) es))
      else map Value (filter (\<lambda>e. Key e = k) es))"
  by (induction es) auto

lemma filter_key_neq_eq:
  "filter (\<lambda>e. Key e \<noteq> k' \<and> Key e = k) es =
     (if k = k' then [] else filter (\<lambda>e. Key e = k) es)"
  by (induction es) auto

lemma values_of_SetHeader:
  "values_of k (SetHeader k' v h) = (if k = k' then v # tl (values_of k h) else values_of k h)"
  by (simp add: SetHeader_upd values_of_def values_upd)

lemma values_of_DeleteHeader:
  "values_of k (DeleteHeader k' h) = (if k = k' then [] else values_of k h)"
  by (simp add: DeleteHeader_filter values_of_def filter_key_neq_eq)

lemma values_of_SetHeaderNotEmpty:
  "values_of k (SetHeaderNotEmpty k' v h) =
     (if k = k' then (if v = [] then [] else v # tl (values_of k h)) else values_of k h)"
  by (simp add: SetHeaderNotEmpty_def values_of_SetHeader values_of_DeleteHeader)

lemma lookup_filter:
  "lookup k es = (case filter (\<lambda>e. Key e = k) es of [] \<Rightarrow> None | e # _ \<Rightarrow> Some (Value e))"
  by (induction es) auto

lemma HasHeader_values: "HasHeader k h = (values_of k h \<noteq> [])"
  by (cases "filter (\<lambda>e. Key e = k) (m_entries h)")
    (simp_all add: HasHeader_lookup lookup_filter values_of_def)


lemma filter_key_sort:
  "filter (\<lambda>e. Key e = k) (sort_key (\<lambda>e. f (Key e)) es) =
     filter (\<lambda>e. Key e = k) (es :: Entry list)"
proof -
  have aux: "filter (\<lambda>e. Key e = k) xs = filter (\<lambda>e. Key e = k) (filter (\<lambda>e. f (Key e) = f k) xs)"
    for xs :: "Entry list"
    by (induction xs) auto
  have "filter (\<lambda>e. Key e = k) (sort_key (\<lambda>e. f (Key e)) es) =
        filter (\<lambda>e. Key e = k) (filter (\<lambda>e. f (Key e) = f k) (sort_key (\<lambda>e. f (Key e)) es))"
    by (rule aux)
  also have "\<dots> = filter (\<lambda>e. Key e = k) (filter (\<lambda>e. f (Key e) = f k) es)"
    by (simp only: sort_key_stable)
  also have "\<dots> = filter (\<lambda>e. Key e = k) es"
    by (rule aux [symmetric])
  finally show ?thesis .
qed

lemma values_of_Normalize: "values_of k (NormalizeHeaderOrder h) = values_of k h"
  by (simp add: NormalizeHeaderOrder_def values_of_def filter_key_sort)

lemma same_fields_refl: "same_fields h h"
  by (simp add: same_fields_def)

lemma same_fields_trans: "same_fields h h' \<Longrightarrow> same_fields h' h'' \<Longrightarrow> same_fields h h''"
  unfolding same_fields_def by (metis HeaderData.update_convs(1) HeaderData.surjective)

lemma same_fields_entries: "same_fields h (h\<lparr>m_entries := es\<rparr>)"
  by (simp add: same_fields_def)

lemma same_fields_SetHeader: "same_fields h (SetHeader k v h)"
  by (simp add: SetHeader_upd same_fields_def)

lemma same_fields_DeleteHeader: "same_fields h (DeleteHeader k h)"
  by (simp add: DeleteHeader_filter same_fields_def)

lemma same_fields_SetHeaderNotEmpty: "same_fields h (SetHeaderNotEmpty k v h)"
  by (simp add: SetHeaderNotEmpty_upd same_fields_def)

lemma same_fields_Normalize: "same_fields h (NormalizeHeaderOrder h)"
  by (simp add: NormalizeHeaderOrder_def same_fields_def)

lemma same_fieldsD:
  assumes "same_fields h h'"
  shows "Project h' = Project h" "CreationDate h' = CreationDate h"
    "RevisionDate h' = RevisionDate h" "Translator h' = Translator h"
    "TranslatorEmail h' = TranslatorEmail h" "LanguageTeam h' = LanguageTeam h"
    "Charset h' = Charset h" "Lang h' = Lang h" "SourceCodeCharset h' = SourceCodeCharset h"
    "BasePath h' = BasePath h" "Keywords h' = Keywords h" "SearchPaths h' = SearchPaths h"
    "SearchPathsExcluded h' = SearchPathsExcluded h"
proof -
  from assms have e: "h' = h\<lparr>m_entries := m_entries h'\<rparr>" by (simp add: same_fields_def)
  show "Project h' = Project h" by (subst e) simp
  show "CreationDate h' = CreationDate h" by (subst e) simp
  show "RevisionDate h' = RevisionDate h" by (subst e) simp
  show "Translator h' = Translator h" by (subst e) simp
  show "TranslatorEmail h' = TranslatorEmail h" by (subst e) simp
  show "LanguageTeam h' = LanguageTeam h" by (subst e) simp
  show "Charset h' = Charset h" by (subst e) simp
  show "Lang h' = Lang h" by (subst e) simp
  show "SourceCodeCharset h' = SourceCodeCharset h" by (subst e) simp
  show "BasePath h' = BasePath h" by (subst e) simp
  show "Keywords h' = Keywords h" by (subst e) simp
  show "SearchPaths h' = SearchPaths h" by (subst e) simp
  show "SearchPathsExcluded h' = SearchPathsExcluded h" by (subst e) simp
qed

lemma same_fields_delete_indexed: "same_fields h (delete_indexed fmt i h)"
proof (induction fmt i h rule: delete_indexed.induct)
  case (1 fmt i h)
  show ?case
  proof (cases "HasHeader (Printf_index fmt i) h")
    case False
    then show ?thesis by (subst delete_indexed.simps) (simp add: same_fields_refl)
  next
    case True
    with "1.IH" have "same_fields (DeleteHeader (Printf_index fmt i) h)
        (delete_indexed fmt (Suc i) (DeleteHeader (Printf_index fmt i) h))" by simp
    with same_fields_DeleteHeader have "same_fields h
        (delete_indexed fmt (Suc i) (DeleteHeader (Printf_index fmt i) h))"
      by (rule same_fields_trans)
    with True show ?thesis by (subst delete_indexed.simps) simp
  qed
qed

lemma same_fields_write_indexed: "same_fields h (write_indexed fmt i ps h)"
proof (induction ps arbitrary: i h)
  case Nil
  then show ?case by (simp add: same_fields_refl)
next
  case (Cons p ps)
  show ?case
    using same_fields_trans [OF same_fields_SetHeader Cons.IH] by simp
qed

subsection \<open>Keys that a step leaves alone\<close>

text \<open>
  A step leaves the keys selected by \<open>Q\<close> untouched when it keeps the fields and the
  entries under those keys, in their order.
\<close>

definition untouched :: "(string \<Rightarrow> bool) \<Rightarrow> HeaderData \<Rightarrow> HeaderData \<Rightarrow> bool" where
  "untouched Q h x =
     (same_fields h x \<and>
      filter (\<lambda>e. Q (Key e)) (m_entries x) = filter (\<lambda>e. Q (Key e)) (m_entries h))"

lemma untouched_refl: "untouched Q h h"
  by (simp add: untouched_def same_fields_refl)

lemma untouched_trans: "untouched Q h x \<Longrightarrow> untouched Q x y \<Longrightarrow> untouched Q h y"
  by (auto simp: untouched_def intro: same_fields_trans)

lemma untouched_Let:
  "untouched Q h a \<Longrightarrow> (\<And>x. untouched Q h x \<Longrightarrow> untouched Q h (f x)) \<Longrightarrow>
   untouched Q h (Let a f)"
  by simp

lemma untouched_if:
  "untouched Q h a \<Longrightarrow> untouched Q h b \<Longrightarrow> untouched Q h (if c then a else b)"
  by simp

lemma filter_upd_other:
  "\<not> Q k \<Longrightarrow> filter (\<lambda>e. Q (Key e)) (upd k v es) = filter (\<lambda>e. Q (Key e)) es"
  by (induction es) auto

lemma filter_del_other:
  "\<not> Q k \<Longrightarrow> filter (\<lambda>e. Q (Key e)) (filter (\<lambda>e. Key e \<noteq> k) es) = filter (\<lambda>e. Q (Key e)) es"
  by (induction es) auto

lemma untouched_SetHeader:
  "\<not> Q k \<Longrightarrow> untouched Q h x \<Longrightarrow> untouched Q h (SetHeader k v x)"
  by (rule untouched_trans, assumption)
    (simp add: untouched_def SetHeader_upd same_fields_def filter_upd_other)

lemma untouched_DeleteHeader:
  "\<not> Q k \<Longrightarrow> untouched Q h x \<Longrightarrow> untouched Q h (DeleteHeader k x)"
  by (rule untouched_trans, assumption)
    (simp add: untouched_def DeleteHeader_filter same_fields_def filter_del_other
      del: filter_filter)

lemma untouched_SetHeaderNotEmpty:
  "\<not> Q k \<Longrightarrow> untouched Q h x \<Longrightarrow> untouched Q h (SetHeaderNotEmpty k v x)"
  by (simp add: SetHeaderNotEmpty_def untouched_SetHeader untouched_DeleteHeader)

lemmas untouched_intros =
  untouched_Let untouched_if untouched_SetHeader untouched_SetHeaderNotEmpty
  untouched_DeleteHeader

definition standard_keys :: "string list" where
  "standard_keys = [''Project-Id-Version'', ''POT-Creation-Date'', ''PO-Revision-Date'',
     ''Last-Translator'', ''Language-Team'', ''MIME-Version'', ''Content-Type'',
     ''Content-Transfer-Encoding'', ''Language'']"

definition extended_keys :: "string list" where
  "extended_keys = [''X-Generator'', ''X-Poedit-SourceCharset'', ''X-Poedit-KeywordsList'',
     ''X-Poedit-Basepath'']"

lemma untouched_UpdateDict_standard:
  assumes "\<forall>k \<in> set standard_keys. \<not> Q k"
  shows "untouched Q h (UpdateDict_standard h)"
proof -
  from assms have q: "\<not> Q ''Project-Id-Version''" "\<not> Q ''POT-Creation-Date''"
    "\<not> Q ''PO-Revision-Date''" "\<not> Q ''Last-Translator''" "\<not> Q ''Language-Team''"
    "\<not> Q ''MIME-Version''" "\<not> Q ''Content-Type''" "\<not> Q ''Content-Transfer-Encoding''"
    "\<not> Q ''Language''"
    by (simp_all add: standard_keys_def)
  show ?thesis
    unfolding UpdateDict_standard_def
    by (intro untouched_intros q untouched_refl | assumption)+
qed

lemma untouched_UpdateDict_extended:
  assumes "\<forall>k \<in> set extended_keys. \<not> Q k"
  shows "untouched Q h (UpdateDict_extended v h)"
proof -
  from assms have q: "\<not> Q ''X-Generator''" "\<not> Q ''X-Poedit-SourceCharset''"
    "\<not> Q ''X-Poedit-KeywordsList''" "\<not> Q ''X-Poedit-Basepath''"
    by (simp_all add: extended_keys_def)
  show ?thesis
    unfolding UpdateDict_extended_def
    by (intro untouched_intros q untouched_refl | assumption)+
qed

lemma untouched_delete_indexed:
  assumes "\<forall>j \<ge> i. \<not> Q (Printf_index fmt j)"
  shows "untouched Q h (delete_indexed fmt i h)"
  using assms
proof (induction fmt i h rule: delete_indexed.induct)
  case (1 fmt i h)
  show ?case
  proof (cases "HasHeader (Printf_index fmt i) h")
    case False
    then show ?thesis by (subst delete_indexed.simps) (simp add: untouched_refl)
  next
    case True
    with "1.IH" "1.prems" have "untouched Q (DeleteHeader (Printf_index fmt i) h)
        (delete_indexed fmt (Suc i) (DeleteHeader (Printf_index fmt i) h))" by simp
    moreover have "untouched Q h (DeleteHeader (Printf_index fmt i) h)"
      using "1.prems" by (intro untouched_DeleteHeader untouched_refl) simp
    ultimately have "untouched Q h
        (delete_indexed fmt (Suc i) (DeleteHeader (Printf_index fmt i) h))"
      by (rule untouched_trans [rotated])
    with True show ?thesis by (subst delete_indexed.simps) simp
  qed
qed

lemma untouched_write_indexed:
  assumes "\<forall>j \<ge> i. \<not> Q (Printf_index fmt j)"
  shows "untouched Q h (write_indexed fmt i ps h)"
  using assms
proof (induction ps arbitrary: i h)
  case Nil
  then show ?case by (simp add: untouched_refl)
next
  case (Cons p ps)
  have "untouched Q h (SetHeader (Printf_index fmt i) p h)"
    using Cons.prems by (intro untouched_SetHeader untouched_refl) simp
  moreover have "untouched Q (SetHeader (Printf_index fmt i) p h)
      (write_indexed fmt (Suc i) ps (SetHeader (Printf_index fmt i) p h))"
    using Cons.prems by (intro Cons.IH) simp
  ultimately show ?case using untouched_trans by simp
qed

lemma untouched_values:
  "untouched (\<lambda>k'. k' = k) h x \<Longrightarrow> values_of k x = values_of k h"
  by (simp add: untouched_def values_of_def)

lemma untouched_Normalize:
  "untouched (\<lambda>k'. k' = k) h (NormalizeHeaderOrder h)"
  by (simp add: untouched_def same_fields_Normalize)
    (simp add: NormalizeHeaderOrder_def filter_key_sort)

subsection \<open>The indexed series\<close>

lemma delete_indexed_values:
  assumes "\<forall>j k. i \<le> j \<and> j < k \<and> values_of (Printf_index fmt k) h \<noteq> []
             \<longrightarrow> values_of (Printf_index fmt j) h \<noteq> []"
  shows "\<forall>j \<ge> i. values_of (Printf_index fmt j) (delete_indexed fmt i h) = []"
  using assms
proof (induction fmt i h rule: delete_indexed.induct)
  case (1 fmt i h)
  show ?case
  proof (cases "HasHeader (Printf_index fmt i) h")
    case False
    then have none: "values_of (Printf_index fmt i) h = []" by (simp add: HasHeader_values)
    have "values_of (Printf_index fmt j) h = []" if "i \<le> j" for j
    proof (cases "j = i")
      case True
      with none show ?thesis by simp
    next
      case False
      with that have "i < j" by simp
      with "1.prems" none show ?thesis by blast
    qed
    with False show ?thesis by (subst delete_indexed.simps) simp
  next
    case True
    let ?h = "DeleteHeader (Printf_index fmt i) h"
    have v: "values_of (Printf_index fmt j) ?h =
        (if j = i then [] else values_of (Printf_index fmt j) h)" for j
      by (auto simp: values_of_DeleteHeader dest: Printf_index_inj)
    have "\<forall>j k. Suc i \<le> j \<and> j < k \<and> values_of (Printf_index fmt k) ?h \<noteq> []
             \<longrightarrow> values_of (Printf_index fmt j) ?h \<noteq> []"
    proof (intro allI impI)
      fix j k
      assume a: "Suc i \<le> j \<and> j < k \<and> values_of (Printf_index fmt k) ?h \<noteq> []"
      then have "i \<le> j \<and> j < k \<and> values_of (Printf_index fmt k) h \<noteq> []"
        by (simp add: v split: if_splits)
      with "1.prems" have "values_of (Printf_index fmt j) h \<noteq> []" by blast
      with a show "values_of (Printf_index fmt j) ?h \<noteq> []" by (simp add: v)
    qed
    with "1.IH" True have "\<forall>j \<ge> Suc i. values_of (Printf_index fmt j)
        (delete_indexed fmt (Suc i) ?h) = []" by simp
    moreover have "untouched (\<lambda>k'. k' = Printf_index fmt i) ?h (delete_indexed fmt (Suc i) ?h)"
      by (rule untouched_delete_indexed) (auto dest: Printf_index_inj)
    then have "values_of (Printf_index fmt i) (delete_indexed fmt (Suc i) ?h) = []"
      by (simp add: untouched_values v)
    ultimately have "\<forall>j \<ge> i. values_of (Printf_index fmt j)
        (delete_indexed fmt (Suc i) ?h) = []"
      by (metis Suc_leI le_neq_implies_less)
    with True show ?thesis by (subst delete_indexed.simps) simp
  qed
qed

lemma write_indexed_values:
  assumes "\<forall>j \<ge> i. values_of (Printf_index fmt j) h = []"
  shows "values_of (Printf_index fmt j) (write_indexed fmt i ps h) =
     (if i \<le> j \<and> j < i + length ps then [ps ! (j - i)] else values_of (Printf_index fmt j) h)"
  using assms
proof (induction ps arbitrary: i h)
  case Nil
  then show ?case by simp
next
  case (Cons p ps)
  let ?h = "SetHeader (Printf_index fmt i) p h"
  have v: "values_of (Printf_index fmt j) ?h =
      (if j = i then [p] else values_of (Printf_index fmt j) h)" for j
    using Cons.prems by (auto simp: values_of_SetHeader dest: Printf_index_inj)
  have "\<forall>j \<ge> Suc i. values_of (Printf_index fmt j) ?h = []"
    using Cons.prems by (simp add: v)
  from Cons.IH [OF this] show ?case
    by (auto simp: v nth_Cons' Suc_diff_Suc)
qed

lemma series_distinct:
  "Printf_index ''X-Poedit-SearchPath-'' i \<noteq> Printf_index ''X-Poedit-SearchPathExcluded-'' j"
  by (simp add: Printf_index_def)

lemma series_not_standard:
  "Printf_index ''X-Poedit-SearchPath-'' i \<notin> set standard_keys"
  "Printf_index ''X-Poedit-SearchPathExcluded-'' i \<notin> set standard_keys"
  "Printf_index ''X-Poedit-SearchPath-'' i \<notin> set extended_keys"
  "Printf_index ''X-Poedit-SearchPathExcluded-'' i \<notin> set extended_keys"
  by (simp_all add: Printf_index_def standard_keys_def extended_keys_def)

lemma UpdateDict_paths_values:
  assumes c1: "\<forall>j k. j < k \<and> values_of (Printf_index ''X-Poedit-SearchPath-'' k) h \<noteq> []
             \<longrightarrow> values_of (Printf_index ''X-Poedit-SearchPath-'' j) h \<noteq> []"
    and c2: "\<forall>j k. j < k \<and> values_of (Printf_index ''X-Poedit-SearchPathExcluded-'' k) h \<noteq> []
             \<longrightarrow> values_of (Printf_index ''X-Poedit-SearchPathExcluded-'' j) h \<noteq> []"
  shows "values_of (Printf_index ''X-Poedit-SearchPath-'' j) (UpdateDict_paths h) =
           (if j < length (SearchPaths h) then [SearchPaths h ! j] else [])"
    and "values_of (Printf_index ''X-Poedit-SearchPathExcluded-'' j) (UpdateDict_paths h) =
           (if j < length (SearchPathsExcluded h) then [SearchPathsExcluded h ! j] else [])"
proof -
  let ?sp = "''X-Poedit-SearchPath-''" and ?spx = "''X-Poedit-SearchPathExcluded-''"
  define ha where "ha = delete_indexed ?sp 0 h"
  define hb where "hb = delete_indexed ?spx 0 ha"
  define hc where "hc = write_indexed ?sp 0 (SearchPaths hb) hb"
  define hd where "hd = write_indexed ?spx 0 (SearchPathsExcluded hc) hc"
  have res: "UpdateDict_paths h = hd"
    by (simp add: UpdateDict_paths_def Let_def ha_def hb_def hc_def hd_def)
  have sf: "same_fields h ha" "same_fields ha hb" "same_fields hb hc" "same_fields hc hd"
    by (simp_all add: ha_def hb_def hc_def hd_def same_fields_delete_indexed
        same_fields_write_indexed)
  have f1: "SearchPaths hb = SearchPaths h"
    using sf by (simp add: same_fieldsD)
  have f2: "SearchPathsExcluded hc = SearchPathsExcluded h"
    using sf by (simp add: same_fieldsD)
  have a_sp: "\<forall>j. values_of (Printf_index ?sp j) ha = []"
    using delete_indexed_values [of 0 ?sp h] c1 by (simp add: ha_def)
  have a_spx: "values_of (Printf_index ?spx j) ha = values_of (Printf_index ?spx j) h" for j
    unfolding ha_def
    by (intro untouched_values untouched_delete_indexed) (simp add: series_distinct)
  have b_spx: "\<forall>j. values_of (Printf_index ?spx j) hb = []"
    using delete_indexed_values [of 0 ?spx ha] c2 by (simp add: hb_def a_spx)
  have b_sp: "values_of (Printf_index ?sp j) hb = []" for j
  proof -
    have "values_of (Printf_index ?sp j) hb = values_of (Printf_index ?sp j) ha"
      unfolding hb_def
      by (intro untouched_values untouched_delete_indexed)
        (simp add: series_distinct [symmetric])
    with a_sp show ?thesis by simp
  qed
  have c_sp: "values_of (Printf_index ?sp j) hc =
      (if j < length (SearchPaths h) then [SearchPaths h ! j] else [])" for j
    using write_indexed_values [of 0 ?sp hb j "SearchPaths hb"] b_sp
    by (simp add: hc_def f1)
  have c_spx: "values_of (Printf_index ?spx j) hc = []" for j
  proof -
    have "values_of (Printf_index ?spx j) hc = values_of (Printf_index ?spx j) hb"
      unfolding hc_def
      by (intro untouched_values untouched_write_indexed) (simp add: series_distinct)
    with b_spx show ?thesis by simp
  qed
  have d_spx: "values_of (Printf_index ?spx j) hd =
      (if j < length (SearchPathsExcluded h) then [SearchPathsExcluded h ! j] else [])"
    using write_indexed_values [of 0 ?spx hc j "SearchPathsExcluded hc"] c_spx
    by (simp add: hd_def f2)
  have d_sp: "values_of (Printf_index ?sp j) hd = values_of (Printf_index ?sp j) hc"
    unfolding hd_def
    by (intro untouched_values untouched_write_indexed)
      (simp add: series_distinct [symmetric])
  show "values_of (Printf_index ?sp j) (UpdateDict_paths h) =
           (if j < length (SearchPaths h) then [SearchPaths h ! j] else [])"
    by (simp add: res d_sp c_sp)
  show "values_of (Printf_index ?spx j) (UpdateDict_paths h) =
           (if j < length (SearchPathsExcluded h) then [SearchPathsExcluded h ! j] else [])"
    by (simp add: res d_spx)
qed

lemma UpdateDict_series_values:
  assumes c1: "\<forall>i j. i < j \<and> HasHeader (Printf_index ''X-Poedit-SearchPath-'' j) h
             \<longrightarrow> HasHeader (Printf_index ''X-Poedit-SearchPath-'' i) h"
    and c2: "\<forall>i j. i < j \<and> HasHeader (Printf_index ''X-Poedit-SearchPathExcluded-'' j) h
             \<longrightarrow> HasHeader (Printf_index ''X-Poedit-SearchPathExcluded-'' i) h"
  shows "values_of (Printf_index ''X-Poedit-SearchPath-'' i) (UpdateDict v h) =
           (if i < length (SearchPaths h) then [SearchPaths h ! i] else [])"
    and "values_of (Printf_index ''X-Poedit-SearchPathExcluded-'' i) (UpdateDict v h) =
           (if i < length (SearchPathsExcluded h) then [SearchPathsExcluded h ! i] else [])"
proof -
  let ?sp = "''X-Poedit-SearchPath-''" and ?spx = "''X-Poedit-SearchPathExcluded-''"
  define h2 where "h2 = UpdateDict_extended v (UpdateDict_standard h)"
  have u: "untouched (\<lambda>k'. k' = k) h h2"
    if "k \<notin> set standard_keys" "k \<notin> set extended_keys" for k
    unfolding h2_def using that
    by (intro untouched_trans [OF untouched_UpdateDict_standard untouched_UpdateDict_extended])
      auto
  have v: "values_of (Printf_index ?sp j) h2 = values_of (Printf_index ?sp j) h"
    "values_of (Printf_index ?spx j) h2 = values_of (Printf_index ?spx j) h" for j
    by (intro untouched_values u series_not_standard)+
  from u [of "Printf_index ?sp 0"] have "same_fields h h2"
    by (simp add: untouched_def series_not_standard)
  then have f: "SearchPaths h2 = SearchPaths h" "SearchPathsExcluded h2 = SearchPathsExcluded h"
    by (simp_all add: same_fieldsD)
  have c1': "\<forall>j k. j < k \<and> values_of (Printf_index ?sp k) h2 \<noteq> []
             \<longrightarrow> values_of (Printf_index ?sp j) h2 \<noteq> []"
    using c1 by (simp add: v HasHeader_values)
  have c2': "\<forall>j k. j < k \<and> values_of (Printf_index ?spx k) h2 \<noteq> []
             \<longrightarrow> values_of (Printf_index ?spx j) h2 \<noteq> []"
    using c2 by (simp add: v HasHeader_values)
  have n: "values_of k (UpdateDict v h) = values_of k (UpdateDict_paths h2)" for k
    by (simp add: UpdateDict_def h2_def values_of_Normalize)
  show "values_of (Printf_index ?sp i) (UpdateDict v h) =
           (if i < length (SearchPaths h) then [SearchPaths h ! i] else [])"
    using UpdateDict_paths_values(1) [OF c1' c2', of i] by (simp add: n f)
  show "values_of (Printf_index ?spx i) (UpdateDict v h) =
           (if i < length (SearchPathsExcluded h) then [SearchPathsExcluded h ! i] else [])"
    using UpdateDict_paths_values(2) [OF c1' c2', of i] by (simp add: n f)
qed

text \<open>
  Claim C3, as amended.  For every header whose existing \<^verbatim>\<open>X-Poedit-SearchPath-N\<close> and
  \<^verbatim>\<open>X-Poedit-SearchPathExcluded-N\<close> series are contiguous (an index is present only if
  every smaller index is), after \<^verbatim>\<open>UpdateDict\<close> the entries under the key of index \<open>i\<close> are
  exactly one entry holding element \<open>i\<close> of the current list when \<open>i\<close> is below its length,
  and none otherwise: the series are 0-based and contiguous, and no stale indexed entry
  remains.
\<close>

theorem UpdateDict_regenerates_contiguous_series:
  assumes "\<forall>i j. i < j \<and> HasHeader (Printf_index ''X-Poedit-SearchPath-'' j) h
             \<longrightarrow> HasHeader (Printf_index ''X-Poedit-SearchPath-'' i) h"
    and "\<forall>i j. i < j \<and> HasHeader (Printf_index ''X-Poedit-SearchPathExcluded-'' j) h
             \<longrightarrow> HasHeader (Printf_index ''X-Poedit-SearchPathExcluded-'' i) h"
  shows "(\<forall>i. values_of (Printf_index ''X-Poedit-SearchPath-'' i) (UpdateDict v h) =
               (if i < length (SearchPaths h) then [SearchPaths h ! i] else [])) \<and>
         (\<forall>i. values_of (Printf_index ''X-Poedit-SearchPathExcluded-'' i) (UpdateDict v h) =
               (if i < length (SearchPathsExcluded h) then [SearchPathsExcluded h ! i] else []))"
  using UpdateDict_series_values [OF assms] by simp

lemma Printf_index_small:
  "Printf_index fmt 0 = fmt @ ''0''" "Printf_index fmt 1 = fmt @ ''1''"
  "Printf_index fmt (Suc 0) = fmt @ ''1''" "Printf_index fmt 2 = fmt @ ''2''"
  by (simp_all add: Printf_index_def decimal.simps digit_char_def)

theorem UpdateDict_regenerates_contiguous_series_witness:
  "values_of ''X-Poedit-SearchPath-0'' (UpdateDict ''3.4'' contiguous_header) = [''src''] \<and>
   values_of ''X-Poedit-SearchPath-1'' (UpdateDict ''3.4'' contiguous_header) = [] \<and>
   values_of ''X-Poedit-SearchPathExcluded-0'' (UpdateDict ''3.4'' contiguous_header) = [''build''] \<and>
   values_of ''X-Poedit-SearchPathExcluded-1'' (UpdateDict ''3.4'' contiguous_header) = [''tmp''] \<and>
   values_of ''X-Poedit-SearchPathExcluded-2'' (UpdateDict ''3.4'' contiguous_header) = []"
proof -
  let ?sp = "''X-Poedit-SearchPath-''" and ?spx = "''X-Poedit-SearchPathExcluded-''"
  have keys: "HasHeader k contiguous_header =
      (k \<in> {''X-Poedit-SearchPath-0'', ''X-Poedit-SearchPath-1'', ''X-Foo''})" for k
    by (auto simp: HasHeader_iff contiguous_header_def blank_header_def)
  have sp: "HasHeader (Printf_index ?sp j) contiguous_header = (j = 0 \<or> j = 1)" for j
  proof -
    have "(Printf_index ?sp j = ''X-Poedit-SearchPath-0'') = (j = 0)"
      using Printf_index_inj [of ?sp j 0] by (auto simp: Printf_index_small)
    moreover have "(Printf_index ?sp j = ''X-Poedit-SearchPath-1'') = (j = 1)"
      using Printf_index_inj [of ?sp j 1] by (auto simp: Printf_index_small)
    moreover have "Printf_index ?sp j \<noteq> ''X-Foo''" by (simp add: Printf_index_def)
    ultimately show ?thesis by (simp add: keys)
  qed
  have spx: "\<not> HasHeader (Printf_index ?spx j) contiguous_header" for j
    by (simp add: keys) (simp add: Printf_index_def)
  have c1: "\<forall>i j. i < j \<and> HasHeader (Printf_index ?sp j) contiguous_header
             \<longrightarrow> HasHeader (Printf_index ?sp i) contiguous_header"
    by (auto simp: sp)
  have c2: "\<forall>i j. i < j \<and> HasHeader (Printf_index ?spx j) contiguous_header
             \<longrightarrow> HasHeader (Printf_index ?spx i) contiguous_header"
    by (simp add: spx)
  have f: "SearchPaths contiguous_header = [''src'']"
    "SearchPathsExcluded contiguous_header = [''build'', ''tmp'']"
    by (simp_all add: contiguous_header_def)
  from UpdateDict_regenerates_contiguous_series [OF c1 c2, of "''3.4''"]
  have a: "values_of (Printf_index ?sp i) (UpdateDict ''3.4'' contiguous_header) =
             (if i < 1 then [[''src''] ! i] else [])"
    and b: "values_of (Printf_index ?spx i) (UpdateDict ''3.4'' contiguous_header) =
             (if i < 2 then [[''build'', ''tmp''] ! i] else [])" for i
    by (simp_all add: f)
  from a [of 0] a [of 1] b [of 0] b [of 1] b [of 2] show ?thesis
    by (simp add: Printf_index_small)
qed

text \<open>
  The claim as stated, for a series that is not contiguous, fails: the deleting loop
  stops at the first missing index.  With entries at the indices 0 and 2 and no search
  path, the entry at index 2 is still there after \<^verbatim>\<open>UpdateDict\<close>.
\<close>

theorem UpdateDict_stale_series_counterexample:
  "SearchPaths stale_header = [] \<and>
   HasHeader ''X-Poedit-SearchPath-2'' (UpdateDict ''3.4'' stale_header)"
  by code_simp

subsection \<open>Canonical order of the keys\<close>

text \<open>The keys of the two indexed series are series keys.\<close>

lemma digit_char_digit: "is_digit (digit_char d)"
proof -
  define m where "m = d mod 10"
  then have "m < 10" by simp
  then have "m \<in> {0,1,2,3,4,5,6,7,8,9}" by auto
  then show ?thesis
    unfolding digit_char_def is_digit_def m_def [symmetric]
    by (elim insertE emptyE) simp_all
qed

lemma decimal_digits: "list_all is_digit (decimal n)"
proof (induction n rule: decimal.induct)
  case (1 n)
  show ?case
  proof (cases "n < 10")
    case True
    then show ?thesis
      using digit_char_digit [of n] by (subst decimal.simps) simp
  next
    case False
    with "1.IH" digit_char_digit [of n] show ?thesis by (subst decimal.simps) simp
  qed
qed

lemma decimal_nonempty: "decimal n \<noteq> []"
  using decimal_snoc [of n] by simp

lemma decimal_hd: "0 < n \<Longrightarrow> hd (decimal n) \<noteq> CHR ''0''"
proof (induction n rule: decimal.induct)
  case (1 n)
  show ?case
  proof (cases "n < 10")
    case True
    with "1.prems" have "n \<in> {1,2,3,4,5,6,7,8,9}" by auto
    then have "digit_char n \<noteq> CHR ''0''"
      unfolding digit_char_def by (elim insertE emptyE) simp_all
    with True show ?thesis by (subst decimal.simps) simp
  next
    case False
    then have "0 < n div 10" by simp
    with "1.IH" False have "hd (decimal (n div 10)) \<noteq> CHR ''0''" by simp
    with False decimal_nonempty [of "n div 10"] show ?thesis
      by (subst decimal.simps) simp
  qed
qed

lemma is_decimal_decimal: "is_decimal (decimal n)"
proof (cases "n = 0")
  case True
  then show ?thesis by (simp add: is_decimal_def decimal.simps digit_char_def is_digit_def)
next
  case False
  then show ?thesis
    by (simp add: is_decimal_def decimal_nonempty decimal_digits decimal_hd)
qed

lemma series_key_Printf:
  "series_key (Printf_index ''X-Poedit-SearchPath-'' i)"
  "series_key (Printf_index ''X-Poedit-SearchPathExcluded-'' i)"
  unfolding series_key_def Printf_index_def
  by (simp_all add: is_decimal_decimal del: length_greater_0_conv)

text \<open>The effect of each step on the list of keys.\<close>

definition set_key :: "string \<Rightarrow> string list \<Rightarrow> string list" where
  "set_key k ks = (if k \<in> set ks then ks else ks @ [k])"

lemma keys_upd: "map Key (upd k v es) = set_key k (map Key es)"
  by (induction es) (auto simp: set_key_def)

lemma keys_filter:
  "map Key (filter (\<lambda>e. Key e \<noteq> k) es) = filter (\<lambda>k'. k' \<noteq> k) (map Key es)"
  by (induction es) auto

lemma keys_SetHeader: "keys (SetHeader k v h) = set_key k (keys h)"
  by (simp add: keys_def SetHeader_upd keys_upd)

lemma keys_DeleteHeader: "keys (DeleteHeader k h) = filter (\<lambda>k'. k' \<noteq> k) (keys h)"
  by (simp add: keys_def DeleteHeader_filter filter_map comp_def)

lemma keys_SetHeaderNotEmpty:
  "keys (SetHeaderNotEmpty k v h) =
     (if v = [] then filter (\<lambda>k'. k' \<noteq> k) (keys h) else set_key k (keys h))"
  by (simp add: SetHeaderNotEmpty_def keys_SetHeader keys_DeleteHeader)

lemma untouched_keys: "untouched Q h x \<Longrightarrow> filter Q (keys x) = filter Q (keys h)"
proof -
  assume "untouched Q h x"
  then have "map Key (filter (\<lambda>e. Q (Key e)) (m_entries x)) =
             map Key (filter (\<lambda>e. Q (Key e)) (m_entries h))"
    by (simp add: untouched_def)
  then show ?thesis by (simp add: keys_def filter_map comp_def)
qed

lemma header_rank_standard: "\<forall>k \<in> set standard_keys. \<not> unknown_key k"
  by (simp add: standard_keys_def unknown_key_def header_rank_def Index_def coalesce_def
      canonicalOrder_def wxNOT_FOUND_def)

lemma unknown_extended: "\<forall>k \<in> set extended_keys. unknown_key k"
  by (simp add: extended_keys_def unknown_key_def header_rank_def Index_def coalesce_def
      canonicalOrder_def wxNOT_FOUND_def)

lemma not_series_extended: "\<forall>k \<in> set extended_keys. \<not> series_key k"
  by (simp add: extended_keys_def series_key_def)

lemma keys_Normalize_unknown:
  "filter unknown_key (keys (NormalizeHeaderOrder h)) = filter unknown_key (keys h)"
proof -
  have "filter (\<lambda>e. header_rank (Key e) = 1 + int (length canonicalOrder))
          (sort_key (\<lambda>e. header_rank (Key e)) (m_entries h)) =
        filter (\<lambda>e. header_rank (Key e) = 1 + int (length canonicalOrder)) (m_entries h)"
    by (rule sort_key_stable)
  then have "map Key (filter (\<lambda>e. unknown_key (Key e)) (m_entries (NormalizeHeaderOrder h))) =
        map Key (filter (\<lambda>e. unknown_key (Key e)) (m_entries h))"
    by (simp add: unknown_key_def NormalizeHeaderOrder_def)
  then show ?thesis by (simp add: keys_def filter_map comp_def)
qed

lemma set_keys_Normalize: "set (keys (NormalizeHeaderOrder h)) = set (keys h)"
  by (simp add: keys_def NormalizeHeaderOrder_def)

lemma keys_UpdateDict_extended:
  "keys (UpdateDict_extended v h) =
     (let ks = set_key ''X-Generator'' (keys h);
          ks = (if SourceCodeCharset h = [] then filter (\<lambda>k. k \<noteq> ''X-Poedit-SourceCharset'') ks
                else set_key ''X-Poedit-SourceCharset'' ks);
          ks = (if Keywords h \<noteq> [] then set_key ''X-Poedit-KeywordsList'' ks else ks)
      in if BasePath h = [] then filter (\<lambda>k. k \<noteq> ''X-Poedit-Basepath'') ks
         else set_key ''X-Poedit-Basepath'' ks)"
  by (simp add: UpdateDict_extended_def Let_def SetHeader_upd SetHeaderNotEmpty_upd keys_def
      keys_upd keys_filter)

text \<open>
  Writing a key appends it or leaves the list alone, and deleting a key removes it: the
  keys that stay keep their order.  \<open>kept D u0 u\<close> says that \<open>u\<close> has the keys of \<open>u0\<close> in
  the same order, those of \<open>D\<close> apart.
\<close>

definition kept :: "string set \<Rightarrow> string list \<Rightarrow> string list \<Rightarrow> bool" where
  "kept D u0 u = (filter (\<lambda>k. k \<in> set u0) u = filter (\<lambda>k. k \<notin> D) u0 \<and> D \<inter> set u = {})"

lemma kept_refl: "kept {} u0 u0"
  by (simp add: kept_def)

lemma kept_set:
  assumes "kept D u0 u" and "k \<notin> D"
  shows "kept D u0 (set_key k u)"
proof (cases "k \<in> set u")
  case True
  with assms show ?thesis by (simp add: set_key_def)
next
  case False
  have "k \<notin> set u0"
  proof
    assume "k \<in> set u0"
    with assms have "k \<in> set (filter (\<lambda>k. k \<notin> D) u0)" by simp
    with assms have "k \<in> set (filter (\<lambda>k. k \<in> set u0) u)" by (simp add: kept_def)
    with False show False by simp
  qed
  with False assms show ?thesis by (simp add: set_key_def kept_def)
qed

lemma kept_del:
  assumes "kept D u0 u"
  shows "kept (insert k D) u0 (filter (\<lambda>k'. k' \<noteq> k) u)"
proof -
  have "filter (\<lambda>k'. k' \<in> set u0) (filter (\<lambda>k'. k' \<noteq> k) u) =
        filter (\<lambda>k'. k' \<noteq> k) (filter (\<lambda>k'. k' \<in> set u0) u)"
    by (simp add: conj_commute)
  also have "\<dots> = filter (\<lambda>k'. k' \<noteq> k) (filter (\<lambda>k'. k' \<notin> D) u0)"
    using assms by (simp only: kept_def)
  also have "\<dots> = filter (\<lambda>k'. k' \<notin> insert k D) u0"
    by (simp add: conj_commute)
  finally show ?thesis using assms by (auto simp: kept_def)
qed

lemma kept_final:
  assumes "kept D u0 u"
  shows "filter (\<lambda>k. k \<in> set u0) u = filter (\<lambda>k. k \<in> set u) u0"
proof -
  have "(k \<in> set u) = (k \<notin> D)" if "k \<in> set u0" for k
  proof
    assume "k \<in> set u"
    with assms show "k \<notin> D" by (auto simp: kept_def)
  next
    assume "k \<notin> D"
    with that have "k \<in> set (filter (\<lambda>k. k \<notin> D) u0)" by simp
    with assms have "k \<in> set (filter (\<lambda>k. k \<in> set u0) u)" by (simp add: kept_def)
    then show "k \<in> set u" by simp
  qed
  then have "filter (\<lambda>k. k \<in> set u) u0 = filter (\<lambda>k. k \<notin> D) u0"
    by (intro filter_cong) auto
  with assms show ?thesis by (simp add: kept_def)
qed

lemma extended_keys_order:
  fixes u0 :: "string list" and c1 c2 c3 :: bool
  defines "u1 \<equiv> set_key ''X-Generator'' u0"
  defines "u2 \<equiv> (if c1 then filter (\<lambda>k. k \<noteq> ''X-Poedit-SourceCharset'') u1
                  else set_key ''X-Poedit-SourceCharset'' u1)"
  defines "u3 \<equiv> (if c2 then set_key ''X-Poedit-KeywordsList'' u2 else u2)"
  defines "u4 \<equiv> (if c3 then filter (\<lambda>k. k \<noteq> ''X-Poedit-Basepath'') u3
                  else set_key ''X-Poedit-Basepath'' u3)"
  shows "filter (\<lambda>k. k \<in> set u0) u4 = filter (\<lambda>k. k \<in> set u4) u0"
proof -
  have k1: "kept {} u0 u1"
    unfolding u1_def by (intro kept_set kept_refl) simp
  have "\<exists>D. D \<subseteq> {''X-Poedit-SourceCharset''} \<and> kept D u0 u2"
  proof (cases c1)
    case True
    with kept_del [OF k1, of "''X-Poedit-SourceCharset''"] show ?thesis
      by (auto simp: u2_def)
  next
    case False
    with kept_set [OF k1, of "''X-Poedit-SourceCharset''"] show ?thesis
      by (auto simp: u2_def)
  qed
  then obtain D2 where D2: "D2 \<subseteq> {''X-Poedit-SourceCharset''}" and k2: "kept D2 u0 u2" by blast
  from D2 have "''X-Poedit-KeywordsList'' \<notin> D2" by auto
  with k2 have k3: "kept D2 u0 u3"
    by (simp add: u3_def kept_set)
  from D2 have n: "''X-Poedit-Basepath'' \<notin> D2" by auto
  have "\<exists>D. kept D u0 u4"
  proof (cases c3)
    case True
    with kept_del [OF k3, of "''X-Poedit-Basepath''"] show ?thesis
      by (auto simp: u4_def)
  next
    case False
    with kept_set [OF k3 n] show ?thesis by (auto simp: u4_def)
  qed
  then show ?thesis using kept_final by blast
qed

lemma filter_set_key:
  "Q k \<Longrightarrow> filter Q (set_key k ks) = set_key k (filter Q ks)"
  by (simp add: set_key_def)

lemma filter_del_key:
  "filter Q (filter (\<lambda>k'. k' \<noteq> k) ks) = filter (\<lambda>k'. k' \<noteq> k) (filter Q ks)"
  by (simp add: conj_commute)

lemma UpdateDict_keys_order:
  "sorted (map header_rank (keys (UpdateDict v h))) \<and>
   filter (\<lambda>k. unknown_key k \<and> \<not> series_key k \<and> k \<in> set (keys h)) (keys (UpdateDict v h)) =
   filter (\<lambda>k. unknown_key k \<and> \<not> series_key k \<and> k \<in> set (keys (UpdateDict v h))) (keys h)"
proof
  have "map header_rank (keys (UpdateDict v h)) =
        map (\<lambda>e. header_rank (Key e)) (sort_key (\<lambda>e. header_rank (Key e))
          (m_entries (UpdateDict_paths (UpdateDict_extended v (UpdateDict_standard h)))))"
    by (simp add: keys_def UpdateDict_def NormalizeHeaderOrder_def comp_def)
  then show "sorted (map header_rank (keys (UpdateDict v h)))"
    by (simp only: sorted_sort_key)
next
  let ?N = unknown_key and ?S = "\<lambda>k. \<not> series_key k"
  define h1 where "h1 = UpdateDict_standard h"
  define h2 where "h2 = UpdateDict_extended v h1"
  define h3 where "h3 = UpdateDict_paths h2"
  define ksf where "ksf = keys (UpdateDict v h)"
  define u0 where "u0 = filter ?N (keys h)"
  define u2 where "u2 = filter ?N (keys h2)"
  have res: "UpdateDict v h = NormalizeHeaderOrder h3"
    by (simp add: UpdateDict_def h1_def h2_def h3_def)
  have f4: "filter ?N (keys h1) = u0"
    unfolding h1_def u0_def
    by (intro untouched_keys untouched_UpdateDict_standard header_rank_standard)
  have sf1: "same_fields h h1"
    using untouched_UpdateDict_standard [of "\<lambda>_. False" h]
    by (simp add: h1_def untouched_def)
  have xk: "unknown_key ''X-Generator''" "unknown_key ''X-Poedit-SourceCharset''"
    "unknown_key ''X-Poedit-KeywordsList''" "unknown_key ''X-Poedit-Basepath''"
    using unknown_extended by (simp_all add: extended_keys_def)
  have u2: "u2 =
     (let ks = set_key ''X-Generator'' u0;
          ks = (if SourceCodeCharset h1 = [] then filter (\<lambda>k. k \<noteq> ''X-Poedit-SourceCharset'') ks
                else set_key ''X-Poedit-SourceCharset'' ks);
          ks = (if Keywords h1 \<noteq> [] then set_key ''X-Poedit-KeywordsList'' ks else ks)
      in if BasePath h1 = [] then filter (\<lambda>k. k \<noteq> ''X-Poedit-Basepath'') ks
         else set_key ''X-Poedit-Basepath'' ks)"
    unfolding u2_def h2_def keys_UpdateDict_extended Let_def
    by (simp add: filter_set_key filter_del_key [of unknown_key] xk f4 del: filter_filter)
  have order: "filter (\<lambda>k. k \<in> set u0) u2 = filter (\<lambda>k. k \<in> set u2) u0"
    unfolding u2 Let_def by (rule extended_keys_order)
  have f2: "filter ?S (keys h3) = filter ?S (keys h2)"
  proof -
    let ?sp = "''X-Poedit-SearchPath-''" and ?spx = "''X-Poedit-SearchPathExcluded-''"
    define ha where "ha = delete_indexed ?sp 0 h2"
    define hb where "hb = delete_indexed ?spx 0 ha"
    define hc where "hc = write_indexed ?sp 0 (SearchPaths hb) hb"
    define hd where "hd = write_indexed ?spx 0 (SearchPathsExcluded hc) hc"
    have "h3 = hd"
      by (simp add: h3_def UpdateDict_paths_def Let_def ha_def hb_def hc_def hd_def)
    moreover have "untouched ?S h2 ha" "untouched ?S ha hb" "untouched ?S hb hc"
      "untouched ?S hc hd"
      unfolding ha_def hb_def hc_def hd_def
      by (intro untouched_delete_indexed untouched_write_indexed, simp add: series_key_Printf)+
    ultimately have "untouched ?S h2 h3"
      by (blast intro: untouched_trans)
    then show ?thesis by (rule untouched_keys)
  qed
  have ksf: "filter ?N ksf = filter ?N (keys h3)" "set ksf = set (keys h3)"
    by (simp_all add: ksf_def res keys_Normalize_unknown set_keys_Normalize)
  have E: "filter ?S (filter ?N ksf) = filter ?S u2"
  proof -
    have "filter ?S (filter ?N ksf) = filter ?S (filter ?N (keys h3))"
      by (simp only: ksf)
    also have "\<dots> = filter ?N (filter ?S (keys h3))"
      by (simp add: conj_commute)
    also have "\<dots> = filter ?N (filter ?S (keys h2))"
      by (simp only: f2)
    also have "\<dots> = filter ?S u2"
      by (simp add: u2_def conj_commute)
    finally show ?thesis .
  qed
  have "filter (\<lambda>k. ?N k \<and> ?S k \<and> k \<in> set (keys h)) ksf =
        filter (\<lambda>k. k \<in> set u0) (filter ?S (filter ?N ksf))"
    by (auto simp: u0_def intro: filter_cong)
  also have "\<dots> = filter (\<lambda>k. k \<in> set u0) (filter ?S u2)"
    by (simp only: E)
  also have "\<dots> = filter ?S (filter (\<lambda>k. k \<in> set u0) u2)"
    by (simp add: conj_commute)
  also have "\<dots> = filter ?S (filter (\<lambda>k. k \<in> set u2) u0)"
    by (simp only: order)
  also have "\<dots> = filter (\<lambda>k. ?N k \<and> ?S k \<and> k \<in> set ksf) (keys h)"
  proof -
    have "(k \<in> set ksf) = (k \<in> set u2)" if "?N k" "?S k" for k
    proof -
      from that have "(k \<in> set ksf) = (k \<in> set (filter ?S (filter ?N ksf)))" by simp
      also have "\<dots> = (k \<in> set (filter ?S u2))" by (simp only: E)
      also from that have "\<dots> = (k \<in> set u2)" by simp
      finally show ?thesis .
    qed
    then show ?thesis
      by (auto simp: u0_def intro: filter_cong)
  qed
  finally show "filter (\<lambda>k. ?N k \<and> ?S k \<and> k \<in> set (keys h)) (keys (UpdateDict v h)) =
        filter (\<lambda>k. ?N k \<and> ?S k \<and> k \<in> set (keys (UpdateDict v h))) (keys h)"
    by (simp only: ksf_def)
qed

lemma UpdateDict_foreign_keys:
  "filter (\<lambda>k. unknown_key k \<and> \<not> series_key k \<and> k \<notin> set extended_keys) (keys (UpdateDict v h)) =
   filter (\<lambda>k. unknown_key k \<and> \<not> series_key k \<and> k \<notin> set extended_keys) (keys h)"
proof -
  let ?F = "\<lambda>k. unknown_key k \<and> \<not> series_key k \<and> k \<notin> set extended_keys"
  let ?sp = "''X-Poedit-SearchPath-''" and ?spx = "''X-Poedit-SearchPathExcluded-''"
  define h1 where "h1 = UpdateDict_standard h"
  define h2 where "h2 = UpdateDict_extended v h1"
  define ha where "ha = delete_indexed ?sp 0 h2"
  define hb where "hb = delete_indexed ?spx 0 ha"
  define hc where "hc = write_indexed ?sp 0 (SearchPaths hb) hb"
  define hd where "hd = write_indexed ?spx 0 (SearchPathsExcluded hc) hc"
  have res: "UpdateDict v h = NormalizeHeaderOrder hd"
    by (simp add: UpdateDict_def UpdateDict_paths_def Let_def h1_def h2_def ha_def hb_def
        hc_def hd_def)
  have "untouched ?F h h1"
    unfolding h1_def using header_rank_standard
    by (intro untouched_UpdateDict_standard) simp
  moreover have "untouched ?F h1 h2"
    unfolding h2_def by (intro untouched_UpdateDict_extended) simp
  moreover have "untouched ?F h2 ha" "untouched ?F ha hb" "untouched ?F hb hc"
    "untouched ?F hc hd"
    unfolding ha_def hb_def hc_def hd_def
    by (intro untouched_delete_indexed untouched_write_indexed, simp add: series_key_Printf)+
  ultimately have "untouched ?F h hd"
    by (blast intro: untouched_trans)
  then have u: "filter ?F (keys hd) = filter ?F (keys h)" by (rule untouched_keys)
  have "filter ?F (keys (UpdateDict v h)) =
      filter (\<lambda>k. \<not> series_key k \<and> k \<notin> set extended_keys)
        (filter unknown_key (keys (NormalizeHeaderOrder hd)))"
    by (simp add: res conj_commute conj_left_commute)
  also have "\<dots> = filter (\<lambda>k. \<not> series_key k \<and> k \<notin> set extended_keys)
        (filter unknown_key (keys hd))"
    by (simp only: keys_Normalize_unknown)
  also have "\<dots> = filter ?F (keys hd)"
    by (simp add: conj_commute conj_left_commute)
  finally show ?thesis by (simp only: u)
qed

text \<open>
  Claim C6, as amended.  After \<^verbatim>\<open>UpdateDict\<close> the keys are sorted by canonical rank: the known
  keys come first, in the canonical order, before every unknown key.  The unknown keys
  other than the keys of the two indexed search-path series keep their relative input
  order: the keys of that kind present before and after the call are in the same order
  in both lists.  Among them, the keys that \<^verbatim>\<open>UpdateDict\<close> does not write, that is all but
  the four extended keys, are all kept, as many times as they occur.
\<close>

theorem UpdateDict_canonical_order:
  "sorted (map header_rank (keys (UpdateDict v h))) \<and>
   filter (\<lambda>k. unknown_key k \<and> \<not> series_key k \<and> k \<in> set (keys h)) (keys (UpdateDict v h)) =
   filter (\<lambda>k. unknown_key k \<and> \<not> series_key k \<and> k \<in> set (keys (UpdateDict v h))) (keys h) \<and>
   filter (\<lambda>k. unknown_key k \<and> \<not> series_key k \<and> k \<notin> set extended_keys) (keys (UpdateDict v h)) =
   filter (\<lambda>k. unknown_key k \<and> \<not> series_key k \<and> k \<notin> set extended_keys) (keys h)"
proof (intro conjI)
  show "sorted (map header_rank (keys (UpdateDict v h)))"
    using UpdateDict_keys_order [of v h] by (rule conjunct1)
  show "filter (\<lambda>k. unknown_key k \<and> \<not> series_key k \<and> k \<in> set (keys h)) (keys (UpdateDict v h)) =
   filter (\<lambda>k. unknown_key k \<and> \<not> series_key k \<and> k \<in> set (keys (UpdateDict v h))) (keys h)"
    using UpdateDict_keys_order [of v h] by (rule conjunct2)
  show "filter (\<lambda>k. unknown_key k \<and> \<not> series_key k \<and> k \<notin> set extended_keys) (keys (UpdateDict v h)) =
   filter (\<lambda>k. unknown_key k \<and> \<not> series_key k \<and> k \<notin> set extended_keys) (keys h)"
    by (rule UpdateDict_foreign_keys)
qed

text \<open>
  The claim as stated, for every unknown key, fails: the entries of the indexed series are
  deleted and written again at the end.  The key \<^verbatim>\<open>X-Poedit-SearchPath-0\<close>, first of the
  two unknown keys of the input, comes after \<^verbatim>\<open>X-Foo\<close> in the result.
\<close>

theorem UpdateDict_series_key_moves_counterexample:
  "keys reordered_header = [''X-Poedit-SearchPath-0'', ''X-Foo''] \<and>
   unknown_key ''X-Poedit-SearchPath-0'' \<and> unknown_key ''X-Foo'' \<and>
   filter (\<lambda>k. k \<in> set (keys reordered_header)) (keys (UpdateDict ''3.4'' reordered_header)) =
     [''X-Foo'', ''X-Poedit-SearchPath-0'']"
  by code_simp

subsection \<open>The round trip of the fields\<close>























































text \<open>\<^verbatim>\<open>ToString\<close> with the empty delimiter returns the escaped header text.\<close>

lemma EscapeCString_append: "EscapeCString (a @ b) = EscapeCString a @ EscapeCString b"
  by (simp add: EscapeCString_def)






section \<open>Properties of catalog items\<close>

subsection \<open>Reading a translation slot\<close>

text \<open>
  Claim C10.  For every item and every index at or beyond the number of translation
  slots, \<^verbatim>\<open>GetTranslation\<close> returns the empty string.  The method is const: it has no
  access to the item but to read it, which is why its model returns the string alone.
\<close>

theorem GetTranslation_out_of_range:
  "GetNumberOfTranslations it \<le> idx \<Longrightarrow> GetTranslation it idx = []"
  by (simp add: GetTranslation_def)

theorem GetTranslation_out_of_range_witness:
  "GetNumberOfTranslations (blank_item\<lparr>m_translations := [''un'', ''deux'']\<rparr>) \<le> 2 \<and>
   GetTranslation (blank_item\<lparr>m_translations := [''un'', ''deux'']\<rparr>) 2 = []"
proof -
  have h: "GetNumberOfTranslations (blank_item\<lparr>m_translations := [''un'', ''deux'']\<rparr>) \<le> 2"
    by (simp add: GetNumberOfTranslations_def)
  from h GetTranslation_out_of_range [OF h] show ?thesis by simp
qed

subsection \<open>The format flag\<close>

lemma occurs_at_Cons_Suc: "occurs_at sub (x # xs) (Suc i) = occurs_at sub xs i"
  by (simp add: occurs_at_def)

lemma find_map: "find P (map f xs) = map_option f (find (P \<circ> f) xs)"
  by (induction xs) auto

lemma find_str_first_occurrence: "find_str sub s = first_occurrence sub s"
proof (induction s)
  case Nil
  then show ?case by (simp add: first_occurrence_def occurs_at_def)
next
  case (Cons x xs)
  have upt: "[0..<Suc (length (x # xs))] = 0 # map Suc [0..<Suc (length xs)]"
    by (simp add: upt_conv_Cons map_Suc_upt del: upt_Suc)
  have "first_occurrence sub (x # xs) =
        (if prefix sub (x # xs) then Some 0 else map_option Suc (first_occurrence sub xs))"
    unfolding first_occurrence_def upt
    by (simp add: find_map comp_def occurs_at_Cons_Suc del: upt_Suc) (simp add: occurs_at_def)
  with Cons show ?case by simp
qed

lemma first_occurrence_Some:
  "first_occurrence sub s = Some pos \<Longrightarrow> occurs_at sub s pos"
  by (auto simp: first_occurrence_def find_Some_iff)

lemma takeWhile_length_all: "length (takeWhile P xs) = length xs \<Longrightarrow> takeWhile P xs = xs"
  by (induction xs) (auto split: if_splits dest: le_trans [OF _ length_takeWhile_le])

lemma rev_take_rev: "rev (take n (rev t)) = drop (length t - n) t"
  by (simp add: rev_take)

lemma format_token:
  assumes occ: "occurs_at ''-format'' flags pos"
  shows "(case find_last_of [CHR '' '', CHR 0x09] flags pos of
            None \<Rightarrow> substr flags 0 pos
          | Some sp \<Rightarrow> substr flags (sp + 1) (pos - sp - 1)) = preceding_token (take pos flags)"
proof -
  let ?ws = "\<lambda>c. c \<notin> set [CHR '' '', CHR 0x09]"
  let ?t = "take pos flags"
  from occ obtain rest where dr: "drop pos flags = CHR ''-'' # rest" and le: "pos \<le> length flags"
    by (auto simp: occurs_at_def prefix_def)
  have lt: "length ?t = pos" using le by simp
  have "take (Suc pos) flags = ?t @ [CHR ''-'']"
    using dr le by (metis append_take_drop_id take_Suc_conv_app_nth Cons_nth_drop_Suc
        le_neq_implies_less list.inject drop_all list.distinct(1) nth_via_drop)
  then have tk: "take (Suc pos) flags = ?t @ [CHR ''-'']" .
  let ?n = "length (takeWhile ?ws (rev ?t))"
  have n: "length (takeWhile ?ws (rev (take (Suc pos) flags))) = Suc ?n"
    by (simp add: tk)
  have nle: "?n \<le> pos" using length_takeWhile_le [of ?ws "rev ?t"] lt by simp
  have pt: "preceding_token ?t = rev (takeWhile ?ws (rev ?t))"
    unfolding preceding_token_def ..
  show ?thesis
  proof (cases "?n = pos")
    case True
    then have "takeWhile ?ws (rev ?t) = rev ?t"
      using takeWhile_length_all [of ?ws "rev ?t"] lt by simp
    then have "preceding_token ?t = ?t" by (simp only: pt rev_rev_ident)
    moreover have "find_last_of [CHR '' '', CHR 0x09] flags pos = None"
      using True lt unfolding find_last_of_def Let_def n by (simp add: tk)
    ultimately show ?thesis by (simp add: substr_def)
  next
    case False
    with nle have nlt: "?n < pos" by simp
    have fl: "find_last_of [CHR '' '', CHR 0x09] flags pos = Some (pos - Suc ?n)"
      using False lt unfolding find_last_of_def Let_def n by (simp add: tk)
    have "takeWhile ?ws (rev ?t) = take ?n (rev ?t)"
      by (metis takeWhile_eq_take)
    then have "preceding_token ?t = rev (take ?n (rev ?t))" by (simp only: pt)
    also have "\<dots> = drop (pos - ?n) ?t" by (simp only: rev_take_rev lt)
    also have "\<dots> = take (pos - (pos - ?n)) (drop (pos - ?n) flags)"
      by (simp only: drop_take)
    also have "pos - (pos - ?n) = ?n" using nle by simp
    finally have "preceding_token ?t = take ?n (drop (pos - ?n) flags)" .
    moreover have "pos - Suc ?n + 1 = pos - ?n" "pos - (pos - Suc ?n) - 1 = ?n"
      using nlt by auto
    ultimately show ?thesis by (simp add: fl substr_def)
  qed
qed

text \<open>
  Claim C2, as amended.  For every flags string, \<^verbatim>\<open>GetFormatFlag\<close> locates the first
  occurrence of the substring \<open>-format\<close>, takes as flag name the token immediately before
  that occurrence (bounded by whitespace), and returns the empty result when that token
  starts with \<open>no-\<close>, or when the flags string contains no \<open>-format\<close>; otherwise it
  returns the token.
\<close>

theorem GetFormatFlag_first_occurrence:
  "GetFormatFlag it =
     format_flag_at (first_occurrence ''-format'' (m_moreFlags it)) (m_moreFlags it)"
proof (cases "first_occurrence ''-format'' (m_moreFlags it)")
  case None
  then show ?thesis
    by (simp add: GetFormatFlag_def format_flag_at_def find_str_first_occurrence)
next
  case (Some pos)
  then have ne: "m_moreFlags it \<noteq> []"
    by (auto simp: first_occurrence_def occurs_at_def find_Some_iff)
  from Some have occ: "occurs_at ''-format'' (m_moreFlags it) pos"
    by (rule first_occurrence_Some)
  show ?thesis
    using format_token [OF occ]
    by (simp add: GetFormatFlag_def format_flag_at_def find_str_first_occurrence Some ne
        Let_def starts_with_def)
qed

text \<open>
  The claim as stated, with the last occurrence, fails on the flags
  \<open>, c-format, no-python-format\<close>: the code answers \<open>c\<close>, the token before the last
  occurrence is \<open>no-python\<close>.
\<close>

theorem GetFormatFlag_last_occurrence_counterexample:
  "GetFormatFlag (blank_item\<lparr>m_moreFlags := '', c-format, no-python-format''\<rparr>) = ''c'' \<and>
   format_flag_at (last_occurrence ''-format'' '', c-format, no-python-format'')
     '', c-format, no-python-format'' = []"
  by (simp add: GetFormatFlag_def format_flag_at_def last_occurrence_def occurs_at_def
      find_last_of_def substr_def starts_with_def preceding_token_def blank_item_def Let_def
      upt_rec [of 0] )

subsection \<open>The translated flag\<close>

text \<open>
  \<^verbatim>\<open>SetTranslation\<close>, \<^verbatim>\<open>SetTranslations\<close> and \<^verbatim>\<open>ClearTranslation\<close> leave the flag true
  exactly when every slot is non-empty (for \<^verbatim>\<open>ClearTranslation\<close>, on an item that has a
  slot).
\<close>

lemma scan_translated_iff: "scan_translated ts = (\<forall>t \<in> set ts. t \<noteq> [])"
  by (induction ts) auto

lemma SetTranslation_translated:
  "IsTranslated (SetTranslation t idx it) =
     (\<forall>s \<in> set (m_translations (SetTranslation t idx it)). s \<noteq> [])"
  by (simp add: SetTranslation_def IsTranslated_def ClearIssue_def
      UpdateInternalRepresentation_def Let_def scan_translated_iff)

lemma SetTranslations_translated:
  "IsTranslated (SetTranslations ts it) =
     (\<forall>s \<in> set (m_translations (SetTranslations ts it)). s \<noteq> [])"
  by (simp add: SetTranslations_def IsTranslated_def ClearIssue_def
      UpdateInternalRepresentation_def Let_def scan_translated_iff)

lemma clear_slots_fst: "fst (clear_slots ts m) = replicate (length ts) []"
  by (induction ts arbitrary: m) (simp_all add: case_prod_unfold)

lemma ClearTranslation_slots:
  "m_translations (ClearTranslation it) = replicate (length (m_translations it)) []"
  by (simp add: ClearTranslation_def UpdateInternalRepresentation_def Let_def
      case_prod_unfold clear_slots_fst)

lemma ClearTranslation_translated:
  "m_translations it \<noteq> [] \<Longrightarrow>
   IsTranslated (ClearTranslation it) =
     (\<forall>s \<in> set (m_translations (ClearTranslation it)). s \<noteq> [])"
  by (simp add: ClearTranslation_slots)
    (simp add: ClearTranslation_def IsTranslated_def UpdateInternalRepresentation_def Let_def
      case_prod_unfold)

text \<open>
  Claim C4.  The claim asks that after any of the four mutators \<^verbatim>\<open>IsTranslated()\<close> is true
  if and only if every slot is non-empty, and names the case of
  \<^verbatim>\<open>SetTranslationFromSource\<close> on an item with an empty source string.  There the code
  sets the flag without looking at the slots: on an item with the empty source string
  and one empty slot it returns an item whose flag is true and whose only slot is empty.
\<close>

theorem SetTranslationFromSource_empty_source:
  "map_option (\<lambda>it. (IsTranslated it, m_translations it))
     (SetTranslationFromSource (blank_item\<lparr>m_translations := [[]]\<rparr>)) = Some (True, [[]])"
  by (simp add: SetTranslationFromSource_def blank_item_def ClearIssue_def IsTranslated_def
      UpdateInternalRepresentation_def Let_def)

subsection \<open>Pruning translations that repeat the source\<close>

lemma plural_forms_loop_cong:
  "map Item_GetPluralFormsCount xs = map Item_GetPluralFormsCount ys \<Longrightarrow>
   plural_forms_loop xs n = plural_forms_loop ys n"
proof (induction xs arbitrary: ys n)
  case Nil
  then show ?case by simp
next
  case (Cons x xs)
  then obtain y ys' where ys: "ys = y # ys'" by (cases ys) auto
  with Cons.prems Cons.IH [of ys'] show ?case by simp
qed

lemma Item_GetPluralFormsCount_Clear:
  "Item_GetPluralFormsCount (ClearTranslation i) = Item_GetPluralFormsCount i"
  using ClearTranslation_slots [of i]
  by (simp add: Item_GetPluralFormsCount_def GetNumberOfTranslations_def HasPlural_def)
    (simp add: ClearTranslation_def UpdateInternalRepresentation_def Let_def case_prod_unfold)

lemma remove_same_loop_eq:
  "map Item_GetPluralFormsCount seen = map Item_GetPluralFormsCount seen0 \<Longrightarrow>
   remove_same_loop seen rest changed =
     (changed \<or> list_ex (same_as_source (items_GetPluralFormsCount (seen0 @ rest))) rest,
      seen @ map (\<lambda>i. if same_as_source (items_GetPluralFormsCount (seen0 @ rest)) i
                       then ClearTranslation i else i) rest)"
proof (induction rest arbitrary: seen seen0 changed)
  case Nil
  then show ?case by simp
next
  case (Cons i rest)
  let ?n = "items_GetPluralFormsCount (seen0 @ i # rest)"
  have n: "items_GetPluralFormsCount (seen @ i # rest) = ?n"
    unfolding items_GetPluralFormsCount_def
    by (rule plural_forms_loop_cong) (simp add: Cons.prems)
  have n': "items_GetPluralFormsCount ((seen0 @ [i]) @ rest) = ?n" by simp
  have a: "map Item_GetPluralFormsCount (seen @ [i]) = map Item_GetPluralFormsCount (seen0 @ [i])"
    by (simp add: Cons.prems)
  have b: "map Item_GetPluralFormsCount (seen @ [ClearTranslation i]) =
           map Item_GetPluralFormsCount (seen0 @ [i])"
    by (simp add: Cons.prems Item_GetPluralFormsCount_Clear)
  show ?case
  proof (cases "same_as_source ?n i")
    case True
    then have "remove_same_loop seen (i # rest) changed =
               remove_same_loop (seen @ [ClearTranslation i]) rest True"
      by (simp add: n same_as_source_def split: if_splits)
    with True Cons.IH [OF b, of True] show ?thesis by (simp add: n')
  next
    case False
    then have "remove_same_loop seen (i # rest) changed =
               remove_same_loop (seen @ [i]) rest changed"
      by (auto simp: n same_as_source_def split: if_splits)
    with False Cons.IH [OF a, of changed] show ?thesis by (simp add: n')
  qed
qed

lemma ClearTranslation_changes:
  "GetTranslation i 0 \<noteq> [] \<Longrightarrow> ClearTranslation i \<noteq> i"
proof
  assume t: "GetTranslation i 0 \<noteq> []" and e: "ClearTranslation i = i"
  from t have len: "0 < length (m_translations i)" and nz: "m_translations i ! 0 \<noteq> []"
    by (auto simp: GetTranslation_def GetNumberOfTranslations_def split: if_splits)
  from ClearTranslation_slots [of i] e
  have "m_translations i = replicate (length (m_translations i)) []" by simp
  then have "m_translations i ! 0 = replicate (length (m_translations i)) [] ! 0" by simp
  with len nz show False by simp
qed

text \<open>
  Claim C5, as amended.  \<^verbatim>\<open>RemoveSameAsSourceTranslations\<close> applies \<^verbatim>\<open>ClearTranslation\<close> to
  each item that repeats its source (a non-plural item whose primary translation equals
  its source string; a pluralized item only when moreover the catalog's plural-forms
  count is 2 and its second slot equals the plural source), leaves every other item, the
  header and the sideload context as they are, and returns true if and only if it
  applied \<^verbatim>\<open>ClearTranslation\<close> to at least one item.  When every item that repeats its
  source has a non-empty source string, that is the case if and only if the items changed.
\<close>

theorem RemoveSameAsSourceTranslations_result:
  "RemoveSameAsSourceTranslations c =
     (list_ex (same_as_source (GetPluralFormsCount c)) (m_items c),
      Catalog (map (\<lambda>i. if same_as_source (GetPluralFormsCount c) i
                         then ClearTranslation i else i) (m_items c))
        (m_header c) (cat_sideloaded c)) \<and>
   ((\<forall>i \<in> set (m_items c). same_as_source (GetPluralFormsCount c) i \<longrightarrow> GetString i \<noteq> [])
      \<longrightarrow> fst (RemoveSameAsSourceTranslations c)
            = (m_items (snd (RemoveSameAsSourceTranslations c)) \<noteq> m_items c))"
proof -
  let ?n = "GetPluralFormsCount c"
  let ?f = "\<lambda>i. if same_as_source ?n i then ClearTranslation i else i"
  have eq: "RemoveSameAsSourceTranslations c =
     (list_ex (same_as_source ?n) (m_items c),
      Catalog (map ?f (m_items c)) (m_header c) (cat_sideloaded c))"
    using remove_same_loop_eq [of "[]" "[]" "m_items c" False]
    by (simp add: RemoveSameAsSourceTranslations_def GetPluralFormsCount_def)
  have "list_ex (same_as_source ?n) (m_items c) = (map ?f (m_items c) \<noteq> m_items c)"
    if h: "\<forall>i \<in> set (m_items c). same_as_source ?n i \<longrightarrow> GetString i \<noteq> []"
  proof
    assume "list_ex (same_as_source ?n) (m_items c)"
    then obtain i where i: "i \<in> set (m_items c)" "same_as_source ?n i"
      by (auto simp: list_ex_iff)
    with h have "GetTranslation i 0 \<noteq> []" by (auto simp: same_as_source_def)
    then have "?f i \<noteq> i" using i ClearTranslation_changes by simp
    with i show "map ?f (m_items c) \<noteq> m_items c"
      using map_eq_conv [of ?f "m_items c" id] by auto
  next
    assume "map ?f (m_items c) \<noteq> m_items c"
    then have "\<not> (\<forall>i \<in> set (m_items c). ?f i = id i)"
      using map_eq_conv [of ?f "m_items c" id] by simp
    then obtain i where "i \<in> set (m_items c)" "?f i \<noteq> i" by auto
    then show "list_ex (same_as_source ?n) (m_items c)"
      by (auto simp: list_ex_iff split: if_splits)
  qed
  with eq show ?thesis by simp
qed

theorem RemoveSameAsSourceTranslations_result_witness:
  "(let c = catalog_of [translated_item ''Open'' ''Open'',
                        plural_item ''file'' ''files'' [''file'', ''files''],
                        translated_item ''Save'' ''Enregistrer'']
    in GetPluralFormsCount c = 1 \<and>
       fst (RemoveSameAsSourceTranslations c) \<and>
       map m_translations (m_items (snd (RemoveSameAsSourceTranslations c))) =
         [[[]], [''file'', ''files''], [''Enregistrer'']] \<and>
       m_items (snd (RemoveSameAsSourceTranslations c)) \<noteq> m_items c) \<and>
   (let c = catalog_of [plural_item ''file'' ''files'' [''file'', ''files'', ''files'']]
    in GetPluralFormsCount c = 2 \<and>
       fst (RemoveSameAsSourceTranslations c) \<and>
       map m_translations (m_items (snd (RemoveSameAsSourceTranslations c))) = [[[], [], []]]) \<and>
   (let c = catalog_of [plural_item ''file'' ''files'' [''file'', ''files'', ''files'', ''files'']]
    in GetPluralFormsCount c = 3 \<and>
       \<not> fst (RemoveSameAsSourceTranslations c) \<and>
       snd (RemoveSameAsSourceTranslations c) = c)"
  using RemoveSameAsSourceTranslations_result
          [of "catalog_of [translated_item ''Open'' ''Open'',
                           plural_item ''file'' ''files'' [''file'', ''files''],
                           translated_item ''Save'' ''Enregistrer'']"]
        RemoveSameAsSourceTranslations_result
          [of "catalog_of [plural_item ''file'' ''files'' [''file'', ''files'', ''files'']]"]
        RemoveSameAsSourceTranslations_result
          [of "catalog_of [plural_item ''file'' ''files''
                             [''file'', ''files'', ''files'', ''files'']]"]
  by (simp add: Let_def catalog_of_def translated_item_def plural_item_def blank_item_def
      same_as_source_def GetPluralFormsCount_def items_GetPluralFormsCount_def
      Item_GetPluralFormsCount_def GetNumberOfTranslations_def HasPlural_def GetString_def
      GetPluralString_def GetTranslation_def ClearTranslation_def
      UpdateInternalRepresentation_def)

text \<open>
  The claim as stated fails: an item with the empty source string and one empty slot
  repeats its source, so the call returns true, and the catalog is what it was.
\<close>

theorem RemoveSameAsSourceTranslations_unchanged_counterexample:
  "RemoveSameAsSourceTranslations (catalog_of [translated_item [] []]) =
     (True, catalog_of [translated_item [] []])"
  by (simp add: RemoveSameAsSourceTranslations_def catalog_of_def translated_item_def
      blank_item_def GetString_def GetTranslation_def GetNumberOfTranslations_def
      HasPlural_def ClearTranslation_def UpdateInternalRepresentation_def)

subsection \<open>Sideloading\<close>

lemma find_snoc:
  "find P (xs @ [x]) =
     (case find P xs of Some r \<Rightarrow> Some r | None \<Rightarrow> if P x then Some x else None)"
  by (induction xs) auto

lemma build_refItems_find:
  "build_refItems its m k =
     (case find (\<lambda>r. GetRawString r = k) (rev its) of Some r \<Rightarrow> Some r | None \<Rightarrow> m k)"
  by (induction its arbitrary: m) (auto simp: find_snoc split: option.splits)

lemma sideload_loop_map:
  "sideload_loop refItems its =
     map (\<lambda>i. case refItems (GetRawString i) of None \<Rightarrow> i
               | Some r \<Rightarrow> if GetTranslation r 0 = [] then i
                           else AttachSideloadedData (make_SideloadedItemData r) i) its"
  by (induction its) (auto split: option.splits)

lemma make_SideloadedItemData_eq: "make_SideloadedItemData r = overlay_of r"
  by (simp add: make_SideloadedItemData_def overlay_of_def Let_def)

text \<open>
  Claim C8, as amended.  After \<^verbatim>\<open>SideloadSourceDataFromReferenceFile(ref)\<close>, every target
  item whose raw source string is that of a reference item, the last such reference item
  having a non-empty primary translation, carries an overlay holding that item's
  translation (plus its plural translation when it has a plural, and its extracted
  comments when present); every other target item keeps the overlay it had before the
  call, or none; no other field of a target item is modified; the header is kept and the
  sideload context names the reference catalog and its language.
\<close>

theorem Sideload_result:
  "m_items (SideloadSourceDataFromReferenceFile ref c) =
     map (\<lambda>i. case matched_reference ref i of
                 None \<Rightarrow> i
               | Some r \<Rightarrow> if GetTranslation r 0 = [] then i
                           else i\<lparr>m_sideloaded := Some (overlay_of r)\<rparr>) (m_items c) \<and>
   m_header (SideloadSourceDataFromReferenceFile ref c) = m_header c \<and>
   cat_sideloaded (SideloadSourceDataFromReferenceFile ref c) =
     Some (SideloadedCatalogData ref (GetLanguage ref))"
  by (auto simp: SideloadSourceDataFromReferenceFile_def Let_def sideload_loop_map
      build_refItems_find matched_reference_def items_def make_SideloadedItemData_eq
      AttachSideloadedData_def split: option.splits)

text \<open>
  The claim as stated fails.  The reference catalog below has an item with the raw source
  string \<open>Hello\<close> and the translation \<open>Bonjour\<close>, followed by another item with the same
  raw source string (as under another context) and no translation: the target's \<open>Hello\<close>
  gets no overlay.
\<close>

theorem Sideload_duplicate_source_counterexample:
  "map m_sideloaded
     (m_items (SideloadSourceDataFromReferenceFile
        (catalog_of [translated_item ''Hello'' ''Bonjour'', translated_item ''Hello'' []])
        (catalog_of [translated_item ''Hello'' []]))) = [None]"
  by (simp add: SideloadSourceDataFromReferenceFile_def catalog_of_def translated_item_def
      blank_item_def items_def GetRawString_def GetTranslation_def
      GetNumberOfTranslations_def)

subsection \<open>Line lookup\<close>

lemma find_index_loop_count:
  "find_index_loop its n k =
     k + int (length (takeWhile (\<lambda>i. GetLineNumber i \<le> n) its))"
  by (induction its arbitrary: k) auto

lemma sorted_takeWhile_index:
  "sorted (map f xs) \<Longrightarrow> j < length xs \<Longrightarrow>
     (f (xs ! j) \<le> (n::int)) = (j < length (takeWhile (\<lambda>x. f x \<le> n) xs))"
proof (induction xs arbitrary: j)
  case Nil
  then show ?case by simp
next
  case (Cons x xs)
  show ?case
  proof (cases j)
    case 0
    then show ?thesis by simp
  next
    case (Suc k)
    with Cons.prems have k: "k < length xs" and le: "f x \<le> f (xs ! k)" by auto
    from Cons.prems have s: "sorted (map f xs)" by simp
    show ?thesis
    proof (cases "f x \<le> n")
      case True
      with Cons.IH [OF s k] Suc show ?thesis by simp
    next
      case False
      with le Suc show ?thesis by simp
    qed
  qed
qed

text \<open>
  Claim C7.  On a catalog whose items are sorted by ascending line number, and for every
  integer \<open>n\<close>, \<^verbatim>\<open>FindItemIndexByLine\<close> returns the index of the last item whose line number
  is at most \<open>n\<close>: the result \<open>r\<close> lies between \<open>-1\<close> and the last index, and the items
  with a line number at most \<open>n\<close> are exactly those at the indices up to \<open>r\<close>.  The
  result is \<open>-1\<close>, and \<^verbatim>\<open>FindItemByLine\<close> yields the null item, exactly when no item has
  a line number at most \<open>n\<close>.
\<close>

theorem FindItemIndexByLine_last_at_most:
  assumes "sorted (map GetLineNumber (m_items c))"
  shows "- 1 \<le> FindItemIndexByLine c n \<and>
         FindItemIndexByLine c n < int (length (m_items c)) \<and>
         (\<forall>j < length (m_items c).
            (GetLineNumber (m_items c ! j) \<le> n) = (int j \<le> FindItemIndexByLine c n)) \<and>
         ((FindItemIndexByLine c n = - 1) = (\<forall>i \<in> set (m_items c). n < GetLineNumber i)) \<and>
         FindItemByLine c n =
           (if \<forall>i \<in> set (m_items c). n < GetLineNumber i then None
            else Some (m_items c ! nat (FindItemIndexByLine c n)))"
proof -
  let ?k = "length (takeWhile (\<lambda>i. GetLineNumber i \<le> n) (m_items c))"
  have r: "FindItemIndexByLine c n = int ?k - 1"
    by (simp add: FindItemIndexByLine_def find_index_loop_count)
  have k: "?k \<le> length (m_items c)" by (rule length_takeWhile_le)
  have idx: "\<forall>j < length (m_items c).
      (GetLineNumber (m_items c ! j) \<le> n) = (int j \<le> int ?k - 1)"
    using sorted_takeWhile_index [OF assms, of _ n] by auto
  have none: "(?k = 0) = (\<forall>i \<in> set (m_items c). n < GetLineNumber i)"
  proof
    assume "?k = 0"
    with idx have "\<forall>j < length (m_items c). n < GetLineNumber (m_items c ! j)" by auto
    then show "\<forall>i \<in> set (m_items c). n < GetLineNumber i"
      by (auto simp: in_set_conv_nth)
  next
    assume "\<forall>i \<in> set (m_items c). n < GetLineNumber i"
    then show "?k = 0" by (cases "m_items c") auto
  qed
  show ?thesis
    using k idx none by (auto simp: r FindItemByLine_def Let_def)
qed

theorem FindItemIndexByLine_last_at_most_witness:
  "sorted (map GetLineNumber (m_items (catalog_of (map item_at_line [3, 7, 7, 12])))) \<and>
   FindItemIndexByLine (catalog_of (map item_at_line [3, 7, 7, 12])) 8 = 2 \<and>
   FindItemByLine (catalog_of (map item_at_line [3, 7, 7, 12])) 8 = Some (item_at_line 7) \<and>
   FindItemIndexByLine (catalog_of (map item_at_line [3, 7, 7, 12])) 2 = - 1 \<and>
   FindItemByLine (catalog_of (map item_at_line [3, 7, 7, 12])) 2 = None"
proof -
  have h: "sorted (map GetLineNumber (m_items (catalog_of (map item_at_line [3, 7, 7, 12]))))"
    by (simp add: GetLineNumber_def item_at_line_def catalog_of_def)
  from h FindItemIndexByLine_last_at_most [OF h, of 8]
    FindItemIndexByLine_last_at_most [OF h, of 2]
  show ?thesis
    by (simp add: FindItemIndexByLine_def FindItemByLine_def GetLineNumber_def
        item_at_line_def catalog_of_def)
qed

end
